theory Spec2Isabelle
  imports Complex_Main
begin

section \<open>Data model (the mongoose schemas of index.js)\<close>

text \<open>
  Modelling conventions.
  \<^item> A JavaScript string is a \<open>string\<close>; the table entries written in Chinese in the source
    are given by their UTF-8 bytes.
  \<^item> A JavaScript number is a double. The numeric fields (price, quantity, fee, discount,
    total) hold the doubles the routes compute from integers: the doubles with an integer
    value, the two infinities and \<open>NaN\<close>. Sums, differences and products are rounded as
    IEEE 754 rounds them. Numbers with a fraction are outside the model.
  \<^item> A request is what \<open>express.json()\<close> hands to the handler, typed as the interface of the
    specification types it: an identifier or a token is a string, a quantity, a fee or a
    discount is a number, and a field that may be missing is an \<open>option\<close>. Where a handler
    tests the \<open>typeof\<close> of a field, the field also has the case the test is there for.
  \<^item> A route handler takes the stored collection and returns the collection after the
    request together with the response: \<open>Inl\<close> an error status, \<open>Inr\<close> the payload.
    A handler that returns before \<open>user.save()\<close> returns the collection it was given, and
    so does one whose \<open>user.save()\<close> rejects.
\<close>

subsection \<open>Numbers\<close>

text \<open>
  The doubles with an integer value, the infinities and \<open>NaN\<close>. Every integer below
  \<open>2^53\<close> in magnitude is a double; a larger integer is one when it is a multiple of the
  power of two that leaves 53 bits.
\<close>

datatype jsint = NotANumber | MinusInfinity | Finite int | PlusInfinity

text \<open>How many low bits an integer loses when it is cut to 53 bits.\<close>

function shift53 :: "int \<Rightarrow> nat" where
  "shift53 a = (if a < 2 ^ 53 then 0 else Suc (shift53 (a div 2)))"
  by pat_completeness auto
termination
  by (relation "measure nat") auto

declare shift53.simps [simp del]

text \<open>
  The double nearest to an integer, ties to the even mantissa; from \<open>2^1024\<close> on the
  rounded magnitude is an infinity. This is the rounding of \<open>+\<close>, \<open>-\<close> and \<open>*\<close> on doubles
  whose exact result is the integer \<open>x\<close>.
\<close>

definition rd :: "int \<Rightarrow> jsint" where
  "rd x =
     (let a = \<bar>x\<bar>;
          e = shift53 a;
          q = a div 2 ^ e;
          r = a mod 2 ^ e;
          m = (if 2 * r > 2 ^ e \<or> (2 * r = 2 ^ e \<and> odd q) then q + 1 else q);
          v = m * 2 ^ e
      in if v \<ge> 2 ^ 1024 then (if x < 0 then MinusInfinity else PlusInfinity)
         else Finite (if x < 0 then - v else v))"

fun js_neg :: "jsint \<Rightarrow> jsint" where
  "js_neg NotANumber = NotANumber"
| "js_neg MinusInfinity = PlusInfinity"
| "js_neg (Finite a) = Finite (- a)"
| "js_neg PlusInfinity = MinusInfinity"

text \<open>\<open>x + y\<close>\<close>

fun js_add :: "jsint \<Rightarrow> jsint \<Rightarrow> jsint" where
  "js_add (Finite a) (Finite b) = rd (a + b)"
| "js_add NotANumber y = NotANumber"
| "js_add x NotANumber = NotANumber"
| "js_add PlusInfinity MinusInfinity = NotANumber"
| "js_add MinusInfinity PlusInfinity = NotANumber"
| "js_add PlusInfinity y = PlusInfinity"
| "js_add x PlusInfinity = PlusInfinity"
| "js_add MinusInfinity y = MinusInfinity"
| "js_add x MinusInfinity = MinusInfinity"

text \<open>\<open>x - y\<close>\<close>

definition js_sub :: "jsint \<Rightarrow> jsint \<Rightarrow> jsint" where
  "js_sub x y = js_add x (js_neg y)"

text \<open>\<open>x * y\<close>; an infinity times zero is \<open>NaN\<close>.\<close>

fun js_mul :: "jsint \<Rightarrow> jsint \<Rightarrow> jsint" where
  "js_mul (Finite a) (Finite b) = rd (a * b)"
| "js_mul NotANumber y = NotANumber"
| "js_mul x NotANumber = NotANumber"
| "js_mul (Finite a) y = (if a = 0 then NotANumber else if 0 < a then y else js_neg y)"
| "js_mul x (Finite b) = (if b = 0 then NotANumber else if 0 < b then x else js_neg x)"
| "js_mul PlusInfinity PlusInfinity = PlusInfinity"
| "js_mul MinusInfinity MinusInfinity = PlusInfinity"
| "js_mul PlusInfinity MinusInfinity = MinusInfinity"
| "js_mul MinusInfinity PlusInfinity = MinusInfinity"

text \<open>\<open>x < c\<close> for an integer constant \<open>c\<close>; a comparison with \<open>NaN\<close> is false.\<close>

fun js_less :: "jsint \<Rightarrow> int \<Rightarrow> bool" where
  "js_less NotANumber c = False"
| "js_less MinusInfinity c = True"
| "js_less (Finite a) c = (a < c)"
| "js_less PlusInfinity c = False"

text \<open>A number as a condition: \<open>0\<close> and \<open>NaN\<close> are falsy.\<close>

fun truthy :: "jsint \<Rightarrow> bool" where
  "truthy NotANumber = False"
| "truthy (Finite a) = (a \<noteq> 0)"
| "truthy _ = True"

text \<open>A field as an operand of arithmetic: \<open>undefined\<close> converts to \<open>NaN\<close>.\<close>

fun to_number :: "jsint option \<Rightarrow> jsint" where
  "to_number None = NotANumber"
| "to_number (Some x) = x"

text \<open>
  A \<open>Number\<close> path of a schema casts what is assigned to it; the cast of \<open>NaN\<close> is an error,
  which makes \<open>user.save()\<close> reject.
\<close>

definition castable :: "jsint \<Rightarrow> bool" where
  "castable x = (x \<noteq> NotANumber)"

subsection \<open>Documents\<close>

text \<open>\<open>{ productId, quantity }\<close>: one entry of the \<open>products\<close> array of a request body.\<close>

record product_ref =
  productId :: string
  quantity :: jsint

text \<open>
  \<open>{ productId, name, imageUrl, price, quantity }\<close>: one entry of \<open>cartSchema.products\<close> and
  of \<open>orderSchema.products\<close> (the two schemas give their entries the same shape). No field
  is required: \<open>name\<close>, \<open>imageUrl\<close> and \<open>price\<close> are \<open>None\<close> on an entry that was pushed
  without them.
\<close>

record line_item = product_ref +
  name :: "string option"
  imageUrl :: "string option"
  price :: "jsint option"

text \<open>An entry of \<open>fakeProductDatabase\<close>: what \<open>...info\<close> spreads into a line item.\<close>

record product_info =
  info_name :: string
  info_imageUrl :: string
  info_price :: jsint

record coupon =
  code :: string
  discount :: jsint

text \<open>
  \<open>orderSchema.review\<close>; a rating that was never set is \<open>None\<close>. \<open>review\<close> is a nested path
  of the schema, so \<open>order.review\<close> is an object on every order; the order that has no
  review set (or whose review was set to \<open>undefined\<close>) has \<open>order_review\<close> \<open>None\<close> below.
\<close>

record review =
  comment :: string
  rating :: "rat option"
  imageFiles :: "string list"

record order =
  oid :: string
  products :: "line_item list"
  shippingMethod :: "string option"
  createdAt :: nat
  totalAmount :: jsint
  shippingFee :: "jsint option"
  order_coupon :: "coupon option"
  order_review :: "review option"

text \<open>
  \<open>userSchema\<close>. The field \<open>cart\<close> holds \<open>cart.products\<close>: the schema default makes the
  cart document present on every user.
\<close>

record user =
  uid :: string
  email :: string
  password :: string
  orders :: "order list"
  cart :: "line_item list"
  refreshTokens :: "string list"

type_synonym db = "user list"

text \<open>
  The responses with which a handler of index.js ends without success. \<open>ServerError\<close> is the
  end of a request whose \<open>user.save()\<close> rejects.
\<close>

datatype error =
    Unauthorized
  | Forbidden
  | InvalidCredentials
  | TokenRequired
  | ProductsRequired
  | ProductIdsRequired
  | UserNotFound
  | InvalidProduct string
  | NoMatchingProducts
  | InvalidQuantity
  | ProductNotInCart
  | InvalidShipping "string option"
  | OrderNotFound
  | InvalidRating
  | ReviewExists
  | ReviewNotFound
  | ServerError

section \<open>The collection: queries and save\<close>

text \<open>
  A document found by a query is changed in place and written back: the first element that
  satisfies \<open>P\<close> is replaced, the rest of the array is kept.
\<close>

fun update_first :: "('a \<Rightarrow> bool) \<Rightarrow> ('a \<Rightarrow> 'a) \<Rightarrow> 'a list \<Rightarrow> 'a list" where
  "update_first P f [] = []"
| "update_first P f (x # xs) = (if P x then f x # xs else x # update_first P f xs)"

text \<open>\<open>User.findById(id)\<close>\<close>

definition findById :: "db \<Rightarrow> string \<Rightarrow> user option" where
  "findById d i = List.find (\<lambda>u. uid u = i) d"

text \<open>\<open>User.findOne({ email })\<close>\<close>

definition findOne_email :: "db \<Rightarrow> string \<Rightarrow> user option" where
  "findOne_email d e = List.find (\<lambda>u. email u = e) d"

text \<open>\<open>User.findOne({ refreshTokens: token })\<close>: a user whose array contains the token.\<close>

definition findOne_refreshToken :: "db \<Rightarrow> string \<Rightarrow> user option" where
  "findOne_refreshToken d t = List.find (\<lambda>u. t \<in> set (refreshTokens u)) d"

text \<open>\<open>user.save()\<close>: the stored document with the \<open>_id\<close> of \<open>u\<close> becomes \<open>u\<close>.\<close>

definition save :: "db \<Rightarrow> user \<Rightarrow> db" where
  "save d u = update_first (\<lambda>x. uid x = uid u) (\<lambda>_. u) d"

text \<open>\<open>user.orders.id(orderId)\<close>\<close>

definition orders_id :: "user \<Rightarrow> string \<Rightarrow> order option" where
  "orders_id u i = List.find (\<lambda>x. oid x = i) (orders u)"

section \<open>Token service: /login, /refresh, /logout\<close>

text \<open>
  \<open>jsonwebtoken\<close> and \<open>bcrypt\<close> are libraries, so what they compute is a parameter of the
  handlers: \<open>sa\<close> is \<open>generateAccessToken\<close> and \<open>sr\<close> is \<open>generateRefreshToken\<close> as functions
  of the \<open>_id\<close> they sign (at the time of the request), \<open>vr\<close> is \<open>jwt.verify\<close> with the
  refresh secret (the decoded \<open>id\<close>, or \<open>None\<close> for \<open>err\<close>), and \<open>cmp\<close> is
  \<open>bcrypt.compare\<close>.
\<close>

text \<open>\<open>POST /login\<close>; the arguments are the body fields \<open>email\<close> and \<open>password\<close>.\<close>

definition post_login ::
  "(string \<Rightarrow> string \<Rightarrow> bool) \<Rightarrow> (string \<Rightarrow> string) \<Rightarrow> (string \<Rightarrow> string) \<Rightarrow>
   db \<Rightarrow> string \<Rightarrow> string \<Rightarrow> db \<times> (error + string \<times> string)" where
  "post_login cmp sa sr d em pw =
     (case findOne_email d em of
        None \<Rightarrow> (d, Inl InvalidCredentials)
      | Some u \<Rightarrow>
          if \<not> cmp pw (password u) then (d, Inl InvalidCredentials)
          else
            let accessToken = sa (uid u);
                refreshToken = sr (uid u);
                u' = u\<lparr>refreshTokens := refreshTokens u @ [refreshToken]\<rparr>
            in (save d u', Inr (accessToken, refreshToken)))"

text \<open>\<open>POST /refresh\<close>; the argument is the header \<open>x-refresh-token\<close>.\<close>

definition post_refresh ::
  "(string \<Rightarrow> string) \<Rightarrow> (string \<Rightarrow> string) \<Rightarrow> (string \<Rightarrow> string option) \<Rightarrow>
   db \<Rightarrow> string option \<Rightarrow> db \<times> (error + string \<times> string)" where
  "post_refresh sa sr vr d hdr =
     (case hdr of
        None \<Rightarrow> (d, Inl Unauthorized)
      | Some token \<Rightarrow>
          if token = [] then (d, Inl Unauthorized)
          else
            (case findOne_refreshToken d token of
               None \<Rightarrow> (d, Inl Forbidden)
             | Some u \<Rightarrow>
                 (case vr token of
                    None \<Rightarrow> (d, Inl Forbidden)
                  | Some decoded_id \<Rightarrow>
                      let accessToken = sa decoded_id;
                          newRefreshToken = sr decoded_id;
                          u' = u\<lparr>refreshTokens :=
                                 filter (\<lambda>t. t \<noteq> token) (refreshTokens u) @ [newRefreshToken]\<rparr>
                      in (save d u', Inr (accessToken, newRefreshToken)))))"

text \<open>\<open>POST /logout\<close>; the argument is the body field \<open>token\<close>.\<close>

definition post_logout :: "db \<Rightarrow> string option \<Rightarrow> db \<times> (error + unit)" where
  "post_logout d tok =
     (case tok of
        None \<Rightarrow> (d, Inl TokenRequired)
      | Some token \<Rightarrow>
          if token = [] then (d, Inl TokenRequired)
          else
            (case findOne_refreshToken d token of
               None \<Rightarrow> (d, Inl Forbidden)
             | Some u \<Rightarrow>
                 let u' = u\<lparr>refreshTokens := filter (\<lambda>t. t \<noteq> token) (refreshTokens u)\<rparr>
                 in (save d u', Inr ())))"

section \<open>Tables: property lookup on an object\<close>

text \<open>
  The three tables of the source are plain objects, and \<open>table[id]\<close> reads a property: an
  own property of the table if it has one of that name, a member of \<open>Object.prototype\<close> if
  the name is one of its members, and \<open>undefined\<close> otherwise. Every member of
  \<open>Object.prototype\<close> is truthy (a function, or for \<open>__proto__\<close> the prototype object) and
  has none of the fields the handlers read from a table entry.
\<close>

datatype 'a lookup = Undefined | Own 'a | Inherited

definition object_prototype_keys :: "string list" where
  "object_prototype_keys =
     [''constructor'', ''__defineGetter__'', ''__defineSetter__'', ''hasOwnProperty'',
      ''__lookupGetter__'', ''__lookupSetter__'', ''isPrototypeOf'', ''propertyIsEnumerable'',
      ''toString'', ''valueOf'', ''__proto__'', ''toLocaleString'']"

text \<open>\<open>table[k]\<close>, for a table given by its own properties.\<close>

definition js_get :: "(string \<Rightarrow> 'a option) \<Rightarrow> string \<Rightarrow> 'a lookup" where
  "js_get table k =
     (case table k of
        Some v \<Rightarrow> Own v
      | None \<Rightarrow> if k \<in> set object_prototype_keys then Inherited else Undefined)"

text \<open>The entry a lookup found, to read its fields; a field of anything else is \<open>undefined\<close>.\<close>

fun own_value :: "'a lookup \<Rightarrow> 'a option" where
  "own_value (Own v) = Some v"
| "own_value _ = None"

section \<open>Cart manager: /cart\<close>

text \<open>
  The routes behind \<open>authenticateToken\<close> take \<open>req.user.id\<close> as the argument \<open>i\<close>.
  \<open>fakeProductDatabase\<close> is filled from a remote file when the server starts, so its own
  properties are the parameter \<open>cat\<close>.
\<close>

type_synonym catalog = "string \<Rightarrow> product_info option"

text \<open>
  \<open>{ ...info, productId: p.productId, quantity: p.quantity }\<close>, where \<open>info\<close> is truthy:
  the spread of a catalogue entry gives its fields, the spread of a member of
  \<open>Object.prototype\<close> gives none.
\<close>

definition snapshot :: "product_info lookup \<Rightarrow> product_ref \<Rightarrow> line_item" where
  "snapshot info p =
     \<lparr>productId = productId p, quantity = quantity p,
      name = map_option info_name (own_value info),
      imageUrl = map_option info_imageUrl (own_value info),
      price = map_option info_price (own_value info)\<rparr>"

text \<open>
  The \<open>for (const p of products)\<close> loop of \<open>POST /cart\<close>, on \<open>user.cart.products\<close>:
  it returns at the first \<open>productId\<close> for which \<open>fakeProductDatabase[p.productId]\<close> is
  \<open>undefined\<close>.
\<close>

fun cart_loop :: "catalog \<Rightarrow> product_ref list \<Rightarrow> line_item list \<Rightarrow> error + line_item list" where
  "cart_loop cat [] c = Inr c"
| "cart_loop cat (p # ps) c =
     (case js_get cat (productId p) of
        Undefined \<Rightarrow> Inl (InvalidProduct (productId p))
      | info \<Rightarrow>
          (case List.find (\<lambda>item. productId item = productId p) c of
             Some existing \<Rightarrow>
               cart_loop cat ps
                 (update_first (\<lambda>item. productId item = productId p)
                    (\<lambda>e. e\<lparr>quantity := js_add (quantity e) (quantity p)\<rparr>) c)
           | None \<Rightarrow> cart_loop cat ps (c @ [snapshot info p])))"

text \<open>The casts of the \<open>Number\<close> paths of one entry of \<open>products\<close>.\<close>

definition item_castable :: "line_item \<Rightarrow> bool" where
  "item_castable it =
     (castable (quantity it) \<and> (case price it of None \<Rightarrow> True | Some x \<Rightarrow> castable x))"

text \<open>
  \<open>POST /cart\<close>; a missing \<open>products\<close> field is the empty list. \<open>user.save()\<close> rejects
  when a quantity that the loop assigned is \<open>NaN\<close> (a stored cart holds none).
\<close>

definition post_cart ::
  "catalog \<Rightarrow> db \<Rightarrow> string \<Rightarrow> product_ref list \<Rightarrow> db \<times> (error + line_item list)" where
  "post_cart cat d i ps =
     (if ps = [] then (d, Inl ProductsRequired)
      else
        (case findById d i of
           None \<Rightarrow> (d, Inl UserNotFound)
         | Some u \<Rightarrow>
             (case cart_loop cat ps (cart u) of
                Inl e \<Rightarrow> (d, Inl e)
              | Inr c \<Rightarrow>
                  if list_all item_castable c then (save d (u\<lparr>cart := c\<rparr>), Inr c)
                  else (d, Inl ServerError))))"

text \<open>\<open>DELETE /cart\<close>; the payload is \<open>deletedCount\<close>.\<close>

definition delete_cart :: "db \<Rightarrow> string \<Rightarrow> string list \<Rightarrow> db \<times> (error + nat)" where
  "delete_cart d i productIds =
     (if productIds = [] then (d, Inl ProductIdsRequired)
      else
        (case findById d i of
           None \<Rightarrow> (d, Inl UserNotFound)
         | Some u \<Rightarrow>
             let originalCount = length (cart u);
                 c = filter (\<lambda>p. productId p \<notin> set productIds) (cart u);
                 deletedCount = originalCount - length c
             in if deletedCount = 0 then (d, Inl NoMatchingProducts)
                else (save d (u\<lparr>cart := c\<rparr>), Inr deletedCount)))"

text \<open>
  \<open>PUT /cart/:productId\<close>; the body field \<open>quantity\<close> is \<open>None\<close> when its \<open>typeof\<close> is not
  \<open>'number'\<close>, which the handler answers like a quantity below 1.
\<close>

definition put_cart :: "db \<Rightarrow> string \<Rightarrow> string \<Rightarrow> jsint option \<Rightarrow> db \<times> (error + unit)" where
  "put_cart d i pid qty =
     (case qty of
        None \<Rightarrow> (d, Inl InvalidQuantity)
      | Some q \<Rightarrow>
          if js_less q 1 then (d, Inl InvalidQuantity)
          else
            (case findById d i of
               None \<Rightarrow> (d, Inl UserNotFound)
             | Some u \<Rightarrow>
                 (case List.find (\<lambda>p. productId p = pid) (cart u) of
                    None \<Rightarrow> (d, Inl ProductNotInCart)
                  | Some item \<Rightarrow>
                      if castable q then
                        (save d (u\<lparr>cart := update_first (\<lambda>p. productId p = pid)
                                            (\<lambda>it. it\<lparr>quantity := q\<rparr>) (cart u)\<rparr>),
                         Inr ())
                      else (d, Inl ServerError))))"

section \<open>Order manager: /order\<close>

text \<open>
  The own properties of \<open>fakeCouponDatabase\<close>; the codes are the UTF-8 bytes of the
  source's strings (U+6298 U+6263 followed by the amount).
\<close>

definition fakeCouponDatabase :: "string \<Rightarrow> coupon option" where
  "fakeCouponDatabase k =
     (if k = ''123'' then
        Some \<lparr>code = [CHR 0xE6, CHR 0x8A, CHR 0x98, CHR 0xE6, CHR 0x89, CHR 0xA3] @ ''20'',
              discount = Finite 20\<rparr>
      else if k = ''456'' then
        Some \<lparr>code = [CHR 0xE6, CHR 0x8A, CHR 0x98, CHR 0xE6, CHR 0x89, CHR 0xA3] @ ''100'',
              discount = Finite 100\<rparr>
      else if k = ''789'' then
        Some \<lparr>code = [CHR 0xE6, CHR 0x8A, CHR 0x98, CHR 0xE6, CHR 0x89, CHR 0xA3] @ ''200'',
              discount = Finite 200\<rparr>
      else None)"

text \<open>
  The own properties of \<open>fakeShippingFeeDatabase\<close>: the fields \<open>shippingMethod\<close>
  (U+8D85 U+5546, U+5B85 U+914D, U+81EA U+53D6) and \<open>ShippingFee\<close> of each entry.
\<close>

record shipping_data =
  sd_shippingMethod :: string
  sd_ShippingFee :: jsint

definition fakeShippingFeeDatabase :: "string \<Rightarrow> shipping_data option" where
  "fakeShippingFeeDatabase k =
     (if k = ''123'' then
        Some \<lparr>sd_shippingMethod = [CHR 0xE8, CHR 0xB6, CHR 0x85, CHR 0xE5, CHR 0x95, CHR 0x86],
              sd_ShippingFee = Finite 60\<rparr>
      else if k = ''456'' then
        Some \<lparr>sd_shippingMethod = [CHR 0xE5, CHR 0xAE, CHR 0x85, CHR 0xE9, CHR 0x85, CHR 0x8D],
              sd_ShippingFee = Finite 100\<rparr>
      else if k = ''789'' then
        Some \<lparr>sd_shippingMethod = [CHR 0xE8, CHR 0x87, CHR 0xAA, CHR 0xE5, CHR 0x8F, CHR 0x96],
              sd_ShippingFee = Finite 0\<rparr>
      else None)"

text \<open>
  \<open>table[id]\<close> for an identifier of the body: an absent identifier is the property name
  \<open>undefined\<close>.
\<close>

definition lookup_id :: "(string \<Rightarrow> 'a option) \<Rightarrow> string option \<Rightarrow> 'a lookup" where
  "lookup_id table idopt =
     js_get table (case idopt of None \<Rightarrow> ''undefined'' | Some k \<Rightarrow> k)"

text \<open>
  The \<open>for (const p of products)\<close> loop that \<open>POST /order\<close> and \<open>PUT /order/:orderId\<close>
  both run, with its two accumulators \<open>fullProducts\<close> and \<open>totalAmount\<close>. On a member of
  \<open>Object.prototype\<close> the field \<open>info.price\<close> is \<open>undefined\<close>.
\<close>

fun order_loop ::
  "catalog \<Rightarrow> product_ref list \<Rightarrow> line_item list \<Rightarrow> jsint \<Rightarrow> error + line_item list \<times> jsint" where
  "order_loop cat [] fullProducts tot = Inr (fullProducts, tot)"
| "order_loop cat (p # ps) fullProducts tot =
     (case js_get cat (productId p) of
        Undefined \<Rightarrow> Inl (InvalidProduct (productId p))
      | info \<Rightarrow>
          order_loop cat ps (fullProducts @ [snapshot info p])
            (js_add tot
               (js_mul (to_number (map_option info_price (own_value info))) (quantity p))))"

text \<open>\<open>if (coupon?.discount) totalAmount -= coupon.discount\<close>\<close>

definition apply_coupon :: "coupon option \<Rightarrow> jsint \<Rightarrow> jsint" where
  "apply_coupon c tot =
     (case c of
        None \<Rightarrow> tot
      | Some cp \<Rightarrow> if truthy (discount cp) then js_sub tot (discount cp) else tot)"

text \<open>The casts of the \<open>Number\<close> paths of an order that a route pushed or changed.\<close>

definition order_castable :: "order \<Rightarrow> bool" where
  "order_castable x =
     (castable (totalAmount x)
      \<and> (case shippingFee x of None \<Rightarrow> True | Some f \<Rightarrow> castable f)
      \<and> (case order_coupon x of None \<Rightarrow> True | Some c \<Rightarrow> castable (discount c))
      \<and> list_all item_castable (products x))"

text \<open>
  \<open>POST /order\<close>. \<open>new_id\<close> is the \<open>_id\<close> mongoose gives the pushed order and \<open>now\<close> is
  \<open>new Date()\<close>; the payload is \<open>orderId\<close>. The guard \<open>!shippingData\<close> tests for a falsy
  value, so it lets a member of \<open>Object.prototype\<close> pass: the fee is then \<open>undefined\<close> and
  the total \<open>NaN\<close>. A coupon that is no table entry has no \<open>discount\<close>, and mongoose leaves
  the nested path \<open>coupon\<close> of the pushed order unset for it.
\<close>

definition post_order ::
  "catalog \<Rightarrow> string \<Rightarrow> nat \<Rightarrow> db \<Rightarrow> string \<Rightarrow> product_ref list \<Rightarrow> string option \<Rightarrow>
   string option \<Rightarrow> db \<times> (error + string)" where
  "post_order cat new_id now d i ps couponId shippingId =
     (let cpn = lookup_id fakeCouponDatabase couponId;
          shippingData = lookup_id fakeShippingFeeDatabase shippingId
      in if shippingData = Undefined then (d, Inl (InvalidShipping shippingId))
         else
           let mth = map_option sd_shippingMethod (own_value shippingData);
               fee = map_option sd_ShippingFee (own_value shippingData)
           in if ps = [] then (d, Inl ProductsRequired)
              else
                (case findById d i of
                   None \<Rightarrow> (d, Inl UserNotFound)
                 | Some u \<Rightarrow>
                     (case order_loop cat ps [] (Finite 0) of
                        Inl e \<Rightarrow> (d, Inl e)
                      | Inr (fullProducts, tot) \<Rightarrow>
                          let total1 = js_add tot (to_number fee);
                              total2 = apply_coupon (own_value cpn) total1;
                              new_order = \<lparr>oid = new_id, products = fullProducts,
                                   shippingMethod = mth, createdAt = now,
                                   totalAmount = total2, shippingFee = fee,
                                   order_coupon = own_value cpn, order_review = None\<rparr>
                          in if order_castable new_order
                             then (save d (u\<lparr>orders := orders u @ [new_order]\<rparr>),
                                   Inr (oid new_order))
                             else (d, Inl ServerError))))"

text \<open>
  The body field \<open>shippingFee\<close> of \<open>PUT /order/:orderId\<close>: a number, a string, or missing.
  The handler adds it to the total when its \<open>typeof\<close> is \<open>'number'\<close> and assigns it to the
  \<open>Number\<close> path \<open>order.shippingFee\<close> whatever it is; mongoose casts a string on that path
  (the parameter \<open>castNumber\<close>: an error, nothing, or the number the string reads as).
\<close>

datatype body_fee = FeeNumber jsint | FeeText string | FeeMissing

datatype cast_result = CastError | CastNull | CastNumber jsint

text \<open>What \<open>order.shippingFee = shippingFee\<close> stores; \<open>None\<close> is a cast error.\<close>

definition cast_fee :: "(string \<Rightarrow> cast_result) \<Rightarrow> body_fee \<Rightarrow> jsint option option" where
  "cast_fee castNumber fee =
     (case fee of
        FeeNumber f \<Rightarrow> Some (Some f)
      | FeeMissing \<Rightarrow> Some None
      | FeeText s \<Rightarrow>
          (case castNumber s of
             CastError \<Rightarrow> None
           | CastNull \<Rightarrow> Some None
           | CastNumber x \<Rightarrow> Some (Some x)))"

text \<open>
  \<open>PUT /order/:orderId\<close>; \<open>shippingMethod\<close> and \<open>coupon\<close> may be missing from the body.
\<close>

definition put_order ::
  "(string \<Rightarrow> cast_result) \<Rightarrow> catalog \<Rightarrow> nat \<Rightarrow> db \<Rightarrow> string \<Rightarrow> string \<Rightarrow> product_ref list \<Rightarrow>
   string option \<Rightarrow> body_fee \<Rightarrow> coupon option \<Rightarrow> db \<times> (error + unit)" where
  "put_order castNumber cat now d i orderId ps mth fee cpn =
     (case findById d i of
        None \<Rightarrow> (d, Inl UserNotFound)
      | Some u \<Rightarrow>
          (case orders_id u orderId of
             None \<Rightarrow> (d, Inl OrderNotFound)
           | Some ord \<Rightarrow>
               (case order_loop cat ps [] (Finite 0) of
                  Inl e \<Rightarrow> (d, Inl e)
                | Inr (fullProducts, tot) \<Rightarrow>
                    let total1 = (case fee of FeeNumber f \<Rightarrow> js_add tot f | _ \<Rightarrow> tot);
                        total2 = apply_coupon cpn total1
                    in (case cast_fee castNumber fee of
                          None \<Rightarrow> (d, Inl ServerError)
                        | Some stored_fee \<Rightarrow>
                            let ord' = ord\<lparr>products := fullProducts, shippingMethod := mth,
                                           shippingFee := stored_fee, totalAmount := total2,
                                           order_coupon := cpn, createdAt := now\<rparr>
                            in if order_castable ord'
                               then (save d (u\<lparr>orders := update_first (\<lambda>x. oid x = orderId)
                                                           (\<lambda>_. ord') (orders u)\<rparr>),
                                     Inr ())
                               else (d, Inl ServerError)))))"

section \<open>Review attachment: /order/:orderId/review\<close>

text \<open>
  A JavaScript number, as far as the rating check reads it. \<open>Number\<close> (the conversion
  behind \<open>isNaN\<close>, \<open><\<close> and \<open>>\<close> on a string) and \<open>parseInt\<close> are built-ins, so they
  are the parameters \<open>toNumber\<close> and \<open>parseInt\<close> of the handler.
\<close>

datatype jsnum = NaN | NegInf | Fin rat | PosInf

fun js_lt :: "jsnum \<Rightarrow> rat \<Rightarrow> bool" where
  "js_lt NaN c = False"
| "js_lt NegInf c = True"
| "js_lt (Fin q) c = (q < c)"
| "js_lt PosInf c = False"

fun js_gt :: "jsnum \<Rightarrow> rat \<Rightarrow> bool" where
  "js_gt NaN c = False"
| "js_gt NegInf c = False"
| "js_gt (Fin q) c = (q > c)"
| "js_gt PosInf c = True"

text \<open>\<open>!rating || isNaN(rating) || rating < 1 || rating > 5\<close> on the text field \<open>rating\<close>.\<close>

definition rating_rejected :: "(string \<Rightarrow> jsnum) \<Rightarrow> string option \<Rightarrow> bool" where
  "rating_rejected toNumber r =
     (case r of
        None \<Rightarrow> True
      | Some s \<Rightarrow> s = [] \<or> toNumber s = NaN \<or> js_lt (toNumber s) 1 \<or> js_gt (toNumber s) 5)"

text \<open>
  The guard of \<open>POST /order/:orderId/review\<close> against a second review:
  \<open>order.review && (comment?.length > 0 || rating || imageFiles.length > 0)\<close>. On an order
  without a review the three fields are empty.
\<close>

definition review_exists :: "order \<Rightarrow> bool" where
  "review_exists ord =
     (case order_review ord of
        None \<Rightarrow> False
      | Some r \<Rightarrow>
          comment r \<noteq> [] \<or> (case rating r of None \<Rightarrow> False | Some q \<Rightarrow> q \<noteq> 0)
          \<or> imageFiles r \<noteq> [])"

text \<open>
  The validation \<open>user.save()\<close> runs on \<open>review.rating\<close>
  (\<open>{ type: Number, min: 1, max: 5 }\<close>): the value it stores, or \<open>None\<close> when it throws.
\<close>

fun validate_rating :: "jsnum \<Rightarrow> rat option" where
  "validate_rating (Fin q) = (if 1 \<le> q \<and> q \<le> 5 then Some q else None)"
| "validate_rating _ = None"

text \<open>
  \<open>POST /order/:orderId/review\<close>. \<open>cmt\<close> and \<open>rtg\<close> are the text fields \<open>comment\<close> and
  \<open>rating\<close> of the multipart body, \<open>files\<close> the buffers of \<open>req.files\<close>. An exception of
  \<open>user.save()\<close> is caught and answered with status 500; \<open>parseInt(undefined)\<close> is
  \<open>NaN\<close>.
\<close>

definition post_review ::
  "(string \<Rightarrow> jsnum) \<Rightarrow> (string \<Rightarrow> jsnum) \<Rightarrow> db \<Rightarrow> string \<Rightarrow> string \<Rightarrow> string option \<Rightarrow>
   string option \<Rightarrow> string list \<Rightarrow> db \<times> (error + unit)" where
  "post_review toNumber parseInt d i orderId cmt rtg files =
     (if rating_rejected toNumber rtg then (d, Inl InvalidRating)
      else
        (case findById d i of
           None \<Rightarrow> (d, Inl UserNotFound)
         | Some u \<Rightarrow>
             (case orders_id u orderId of
                None \<Rightarrow> (d, Inl OrderNotFound)
              | Some ord \<Rightarrow>
                  if review_exists ord then (d, Inl ReviewExists)
                  else
                    (case validate_rating (case rtg of None \<Rightarrow> NaN | Some s \<Rightarrow> parseInt s) of
                       None \<Rightarrow> (d, Inl ServerError)
                     | Some q \<Rightarrow>
                         let rv = \<lparr>comment = (case cmt of None \<Rightarrow> [] | Some c \<Rightarrow> c),
                                   rating = Some q, imageFiles = files\<rparr>;
                             ord' = ord\<lparr>order_review := Some rv\<rparr>
                         in (save d (u\<lparr>orders := update_first (\<lambda>x. oid x = orderId)
                                                     (\<lambda>_. ord') (orders u)\<rparr>),
                             Inr ())))))"

text \<open>
  \<open>DELETE /order/:orderId/review\<close>. \<open>order.review\<close> is an object on every order (a
  nested path), so \<open>!order.review\<close> is false and only a missing order is answered 404; the
  review of the order is set to \<open>undefined\<close>, whether it had one or not.
\<close>

definition delete_review :: "db \<Rightarrow> string \<Rightarrow> string \<Rightarrow> db \<times> (error + unit)" where
  "delete_review d i orderId =
     (case findById d i of
        None \<Rightarrow> (d, Inl UserNotFound)
      | Some u \<Rightarrow>
          (case orders_id u orderId of
             None \<Rightarrow> (d, Inl ReviewNotFound)
           | Some ord \<Rightarrow>
               (save d (u\<lparr>orders := update_first (\<lambda>x. oid x = orderId)
                                          (\<lambda>_. ord\<lparr>order_review := None\<rparr>) (orders u)\<rparr>),
                Inr ())))"

section \<open>Stored collections\<close>

text \<open>
  What the database and the token library guarantee of a stored collection: \<open>_id\<close> is the
  primary key, and a refresh token in a user's array is one that \<open>jwt.verify\<close> decodes to
  that user's \<open>_id\<close> (the routes only ever push a token signed for the user they save).
\<close>

definition wf_tokens :: "(string \<Rightarrow> string option) \<Rightarrow> db \<Rightarrow> bool" where
  "wf_tokens vr d =
     (distinct (map uid d) \<and> (\<forall>u \<in> set d. \<forall>t \<in> set (refreshTokens u). vr t = Some (uid u)))"

section \<open>The specification's arithmetic\<close>

text \<open>
  The specification computes with integers. A number of the model that is an integer is
  read by \<open>int_of\<close>; \<open>safe\<close> says that an integer is below \<open>2^53\<close> in magnitude, where
  every integer is a double and the arithmetic of the routes is exact.
\<close>

fun int_of :: "jsint \<Rightarrow> int" where
  "int_of (Finite n) = n"
| "int_of _ = 0"

fun is_finite :: "jsint \<Rightarrow> bool" where
  "is_finite (Finite n) = True"
| "is_finite _ = False"

definition safe :: "int \<Rightarrow> bool" where
  "safe n = (\<bar>n\<bar> < 2 ^ 53)"

subsection \<open>The order total\<close>

text \<open>
  The line items of a list of entries: the snapshot of every entry for which the lookup in
  the catalogue is not \<open>undefined\<close>, in the order of the list.
\<close>

fun resolved :: "catalog \<Rightarrow> product_ref list \<Rightarrow> line_item list" where
  "resolved cat [] = []"
| "resolved cat (p # ps) =
     (if js_get cat (productId p) = Undefined then resolved cat ps
      else snapshot (js_get cat (productId p)) p # resolved cat ps)"

text \<open>Price times quantity of a line item whose price and quantity are integers.\<close>

definition line_total :: "line_item \<Rightarrow> int" where
  "line_total it = int_of (to_number (price it)) * int_of (quantity it)"

definition finite_item :: "line_item \<Rightarrow> bool" where
  "finite_item it = (is_finite (to_number (price it)) \<and> is_finite (quantity it))"

text \<open>
  Section 3 of the specification: the sum of price times quantity over the items, plus the
  shipping fee, minus the discount of the coupon if there is one. It is written from the
  specification, to be compared with what the two handlers compute.
\<close>

definition spec_totalAmount :: "line_item list \<Rightarrow> jsint option \<Rightarrow> coupon option \<Rightarrow> int" where
  "spec_totalAmount items fee cpn =
     (\<Sum>it\<leftarrow>items. line_total it)
     + (case fee of None \<Rightarrow> 0 | Some f \<Rightarrow> int_of f)
     - (case cpn of None \<Rightarrow> 0 | Some c \<Rightarrow> int_of (discount c))"

text \<open>
  The items, the fee and the discount are integers, and the magnitudes of what the formula
  adds up stay below \<open>2^53\<close> together: then no partial result of the formula is rounded.
\<close>

definition safe_total :: "line_item list \<Rightarrow> jsint option \<Rightarrow> coupon option \<Rightarrow> bool" where
  "safe_total items fee cpn =
     (list_all finite_item items
      \<and> (case fee of None \<Rightarrow> True | Some f \<Rightarrow> is_finite f)
      \<and> (case cpn of None \<Rightarrow> True | Some c \<Rightarrow> is_finite (discount c))
      \<and> safe ((\<Sum>it\<leftarrow>items. \<bar>line_total it\<bar>)
              + (case fee of None \<Rightarrow> 0 | Some f \<Rightarrow> \<bar>int_of f\<bar>)
              + (case cpn of None \<Rightarrow> 0 | Some c \<Rightarrow> \<bar>int_of (discount c)\<bar>)))"

text \<open>The fee that \<open>PUT /order/:orderId\<close> is given as a number.\<close>

fun added_fee :: "body_fee \<Rightarrow> jsint option" where
  "added_fee (FeeNumber f) = Some f"
| "added_fee _ = None"

subsection \<open>The cart after a batch\<close>

text \<open>
  The cart the specification describes after a batch of entries is added: every item that
  was in the cart, with the quantities the batch requests of its product added to its
  own, followed by one new item for every product of the batch that the cart did not hold,
  in the order of first appearance, with the catalogue's snapshot and the sum of the
  quantities the batch requests of it.
\<close>

fun new_ids :: "string list \<Rightarrow> string list \<Rightarrow> string list" where
  "new_ids seen [] = []"
| "new_ids seen (k # ks) =
     (if k \<in> set seen then new_ids seen ks else k # new_ids (k # seen) ks)"

definition requested :: "product_ref list \<Rightarrow> string \<Rightarrow> int" where
  "requested ps k = (\<Sum>p\<leftarrow>ps. if productId p = k then int_of (quantity p) else 0)"

definition spec_cart :: "catalog \<Rightarrow> line_item list \<Rightarrow> product_ref list \<Rightarrow> line_item list" where
  "spec_cart cat c ps =
     map (\<lambda>it. it\<lparr>quantity := Finite (int_of (quantity it) + requested ps (productId it))\<rparr>) c
     @ map (\<lambda>k. snapshot (js_get cat k) \<lparr>productId = k, quantity = Finite (requested ps k)\<rparr>)
         (new_ids (map productId c) (map productId ps))"

text \<open>
  The quantities of the cart and of the batch are integers whose magnitudes stay below
  \<open>2^53\<close> together: then no sum of quantities is rounded.
\<close>

definition safe_cart :: "line_item list \<Rightarrow> product_ref list \<Rightarrow> bool" where
  "safe_cart c ps =
     (list_all (\<lambda>it. is_finite (quantity it)) c \<and> list_all (\<lambda>p. is_finite (quantity p)) ps
      \<and> safe ((\<Sum>it\<leftarrow>c. \<bar>int_of (quantity it)\<bar>) + (\<Sum>p\<leftarrow>ps. \<bar>int_of (quantity p)\<bar>)))"

text \<open>
  No price that the catalogue holds for a product of the batch is \<open>NaN\<close>, so that the
  snapshot of the product is one the database stores.
\<close>

definition priced :: "catalog \<Rightarrow> product_ref list \<Rightarrow> bool" where
  "priced cat ps =
     list_all (\<lambda>p. case cat (productId p) of None \<Rightarrow> True
                    | Some v \<Rightarrow> castable (info_price v)) ps"

text \<open>
  Section 3 of the specification: no two items of a cart share a product identifier, and
  every item has a quantity of at least 1.
\<close>

definition cart_inv :: "line_item list \<Rightarrow> bool" where
  "cart_inv c =
     (distinct (map productId c)
      \<and> list_all (\<lambda>it. castable (quantity it) \<and> \<not> js_less (quantity it) 1) c)"

section \<open>Example data\<close>

text \<open>
  A catalogue with two products, and a user with a given cart, order list and token array;
  the examples below run the handlers on them.
\<close>

definition demo_catalog :: catalog where
  "demo_catalog k =
     (if k = ''A'' then
        Some \<lparr>info_name = ''Apple'', info_imageUrl = ''/a.png'', info_price = Finite 100\<rparr>
      else if k = ''B'' then
        Some \<lparr>info_name = ''Bread'', info_imageUrl = ''/b.png'', info_price = Finite 35\<rparr>
      else None)"

definition demo_item :: "string \<Rightarrow> int \<Rightarrow> line_item" where
  "demo_item k q =
     (if k = ''A'' then
        \<lparr>productId = ''A'', quantity = Finite q, name = Some ''Apple'',
         imageUrl = Some ''/a.png'', price = Some (Finite 100)\<rparr>
      else
        \<lparr>productId = ''B'', quantity = Finite q, name = Some ''Bread'',
         imageUrl = Some ''/b.png'', price = Some (Finite 35)\<rparr>)"

definition demo_user :: "line_item list \<Rightarrow> order list \<Rightarrow> string list \<Rightarrow> user" where
  "demo_user c os ts =
     \<lparr>uid = ''u1'', email = ''a@x.io'', password = ''h'', orders = os, cart = c,
      refreshTokens = ts\<rparr>"

text \<open>
  The order of the example scenario: five of product A at 100, shipping 60, coupon 20; with
  a given review.
\<close>

definition demo_order :: "review option \<Rightarrow> order" where
  "demo_order rv =
     \<lparr>oid = ''o1'', products = [demo_item ''A'' 5], shippingMethod = Some ''store'',
      createdAt = 0, totalAmount = Finite 540, shippingFee = Some (Finite 60),
      order_coupon = Some \<lparr>code = ''c20'', discount = Finite 20\<rparr>, order_review = rv\<rparr>"

text \<open>
  The values of \<open>Number\<close> and of \<open>parseInt\<close> on the strings that the examples pass as a
  rating: \<open>Number('3')\<close> is 3, \<open>Number('4.7')\<close> is 4.7 and \<open>parseInt('4.7')\<close> is 4,
  \<open>Number('9')\<close> is 9, \<open>Number('0')\<close> is 0, \<open>Number('abc')\<close> is \<open>NaN\<close>. The examples read
  them on no other string.
\<close>

definition demo_Number :: "string \<Rightarrow> jsnum" where
  "demo_Number s =
     (if s = ''3'' then Fin 3 else if s = ''4.7'' then Fin (47 / 10)
      else if s = ''9'' then Fin 9 else if s = ''0'' then Fin 0 else NaN)"

definition demo_parseInt :: "string \<Rightarrow> jsnum" where
  "demo_parseInt s =
     (if s = ''3'' then Fin 3 else if s = ''4.7'' then Fin 4
      else if s = ''9'' then Fin 9 else if s = ''0'' then Fin 0 else NaN)"

text \<open>
  The cast of mongoose on a \<open>Number\<close> path for the string the examples pass as a shipping
  fee: the string \<open>'60'\<close> is stored as the number 60. The examples read it on no other
  string.
\<close>

definition demo_castNumber :: "string \<Rightarrow> cast_result" where
  "demo_castNumber s = (if s = ''60'' then CastNumber (Finite 60) else CastError)"

section \<open>Facts about the queries and save\<close>

lemma update_first_map:
  "distinct (map k xs) \<Longrightarrow>
   update_first (\<lambda>x. k x = a) f xs = map (\<lambda>x. if k x = a then f x else x) xs"
proof (induction xs)
  case Nil
  then show ?case by simp
next
  case (Cons x xs)
  then show ?case
    by (auto simp: image_iff intro!: map_idI[symmetric])
qed

lemma find_in_set: "List.find P xs = Some x \<Longrightarrow> x \<in> set xs \<and> P x"
  by (induction xs) (auto split: if_splits)

lemma save_map:
  "distinct (map uid d) \<Longrightarrow> save d u = map (\<lambda>x. if uid x = uid u then u else x) d"
  unfolding save_def by (rule update_first_map)

lemma map_uid_save: "map uid (save d u) = map uid d"
  unfolding save_def by (induction d) auto

lemma find_save:
  "distinct (map uid d) \<Longrightarrow> List.find P d = Some u \<Longrightarrow> uid u' = uid u \<Longrightarrow> P u' \<Longrightarrow>
   List.find P (save d u') = Some u'"
  unfolding save_def
proof (induction d)
  case Nil
  then show ?case by simp
next
  case (Cons x xs)
  show ?case
  proof (cases "P x")
    case True
    with Cons.prems show ?thesis by simp
  next
    case False
    with Cons.prems have "List.find P xs = Some u" by simp
    then have "u \<in> set xs" by (simp add: find_in_set)
    with Cons.prems(1) have "uid x \<noteq> uid u" by (auto simp: image_iff)
    with Cons False \<open>List.find P xs = Some u\<close> show ?thesis by simp
  qed
qed

lemma login_ok:
  "findOne_email d em = Some u \<Longrightarrow> cmp pw (password u) \<Longrightarrow>
   post_login cmp sa sr d em pw =
     (save d (u\<lparr>refreshTokens := refreshTokens u @ [sr (uid u)]\<rparr>), Inr (sa (uid u), sr (uid u)))"
  by (simp add: post_login_def Let_def)

lemma login_many:
  "distinct (map uid d) \<Longrightarrow> findOne_email d em = Some u \<Longrightarrow> cmp pw (password u) \<Longrightarrow>
   findById (foldl (\<lambda>d sr. fst (post_login cmp sa sr d em pw)) d srs) (uid u) =
     Some (u\<lparr>refreshTokens := refreshTokens u @ map (\<lambda>sr. sr (uid u)) srs\<rparr>)"
proof (induction srs arbitrary: d u)
  case Nil
  from Nil(2) have "u \<in> set d" by (simp add: findOne_email_def find_in_set)
  with Nil(1) show ?case
    by (induction d) (auto simp: findById_def image_iff)
next
  case (Cons s srs)
  let ?u1 = "u\<lparr>refreshTokens := refreshTokens u @ [s (uid u)]\<rparr>"
  have step: "fst (post_login cmp sa s d em pw) = save d ?u1"
    using Cons.prems by (simp add: login_ok)
  have d1: "distinct (map uid (save d ?u1))"
    using Cons.prems(1) by (simp add: map_uid_save)
  have em: "email u = em"
    using Cons.prems(2) find_in_set[of "\<lambda>x. email x = em" d u] by (simp add: findOne_email_def)
  have f1: "findOne_email (save d ?u1) em = Some ?u1"
    unfolding findOne_email_def
    by (rule find_save[where u = u]) (use Cons.prems em in \<open>simp_all add: findOne_email_def\<close>)
  have "cmp pw (password ?u1)" using Cons.prems by simp
  from Cons.IH[OF d1 f1 this] step show ?case by simp
qed

lemma wf_tokens_bound:
  "wf_tokens vr d \<Longrightarrow> u \<in> set d \<Longrightarrow> t \<in> set (refreshTokens u) \<Longrightarrow> vr t = Some (uid u)"
  unfolding wf_tokens_def by blast

lemma holder_unique:
  assumes "wf_tokens vr d" and "u \<in> set d" and "t \<in> set (refreshTokens u)"
  shows "findOne_refreshToken d t = Some u"
proof -
  from assms obtain v where v: "findOne_refreshToken d t = Some v"
    by (cases "findOne_refreshToken d t") (auto simp: findOne_refreshToken_def find_None_iff)
  then have vd: "v \<in> set d" and vt: "t \<in> set (refreshTokens v)"
    using find_in_set[of "\<lambda>u. t \<in> set (refreshTokens u)" d v]
    by (simp_all add: findOne_refreshToken_def)
  from wf_tokens_bound[OF assms] wf_tokens_bound[OF assms(1) vd vt] have "uid v = uid u" by simp
  moreover from assms(1) have "inj_on uid (set d)" by (simp add: wf_tokens_def distinct_map)
  ultimately have "v = u" using vd assms(2) by (auto dest: inj_onD)
  with v show ?thesis by simp
qed

lemma wf_tokens_save:
  assumes "wf_tokens vr d" and "u \<in> set d" and "uid u' = uid u"
      and "\<forall>t \<in> set (refreshTokens u'). vr t = Some (uid u)"
  shows "wf_tokens vr (save d u')"
proof -
  from assms(1) have dist: "distinct (map uid d)" by (simp add: wf_tokens_def)
  have "distinct (map uid (save d u'))" using dist by (simp add: map_uid_save)
  moreover have "\<forall>x \<in> set (save d u'). \<forall>t \<in> set (refreshTokens x). vr t = Some (uid x)"
    using assms by (auto simp: save_map[OF dist] wf_tokens_def)
  ultimately show ?thesis by (simp add: wf_tokens_def)
qed

lemma token_gone_after_save:
  assumes "wf_tokens vr d" and "u \<in> set d" and "t \<in> set (refreshTokens u)"
      and "uid u' = uid u" and "t \<notin> set (refreshTokens u')"
  shows "findOne_refreshToken (save d u') t = None"
proof -
  from assms(1) have dist: "distinct (map uid d)" by (simp add: wf_tokens_def)
  have "\<And>x. x \<in> set d \<Longrightarrow> uid x \<noteq> uid u \<Longrightarrow> t \<notin> set (refreshTokens x)"
    using wf_tokens_bound[OF assms(1-3)] wf_tokens_bound[OF assms(1)] by fastforce
  then show ?thesis
    using assms(4,5) by (auto simp: findOne_refreshToken_def find_None_iff save_map[OF dist])
qed

lemma in_set_save:
  "distinct (map uid d) \<Longrightarrow> u \<in> set d \<Longrightarrow> uid u' = uid u \<Longrightarrow> u' \<in> set (save d u')"
  by (auto simp: save_map image_iff)

lemma refresh_ok:
  assumes "wf_tokens vr d" and "u \<in> set d" and "t \<in> set (refreshTokens u)" and "t \<noteq> []"
  shows "post_refresh sa sr vr d (Some t) =
           (save d (u\<lparr>refreshTokens := filter (\<lambda>x. x \<noteq> t) (refreshTokens u) @ [sr (uid u)]\<rparr>),
            Inr (sa (uid u), sr (uid u)))"
proof -
  have "findOne_refreshToken d t = Some u" using assms(1-3) by (rule holder_unique)
  moreover have "vr t = Some (uid u)" using assms(1-3) by (rule wf_tokens_bound)
  ultimately show ?thesis using assms(4) by (simp add: post_refresh_def Let_def)
qed

lemma refresh_success_nonempty:
  "post_refresh sa sr vr d (Some t) = (d', Inr r) \<Longrightarrow> t \<noteq> []"
  by (auto simp: post_refresh_def)

section \<open>Login\<close>

text \<open>
  C10. When the credentials are valid (the user is found by email and \<open>bcrypt.compare\<close>
  accepts the password), \<open>POST /login\<close> answers with the two tokens it signed and writes one
  document: the user's, with the new refresh token appended to \<open>refreshTokens\<close>. Every
  token stored before is still there, the other fields of the user (email, password hash,
  cart, orders) and the other users are what they were. Nothing bounds the array: after any
  sequence of logins it holds the tokens it held plus one per login.
\<close>

theorem login_appends_refresh_token:
  assumes "distinct (map uid d)"
      and "findOne_email d em = Some u"
      and "cmp pw (password u)"
  shows "post_login cmp sa sr d em pw =
           (map (\<lambda>x. if uid x = uid u
                     then u\<lparr>refreshTokens := refreshTokens u @ [sr (uid u)]\<rparr> else x) d,
            Inr (sa (uid u), sr (uid u)))
       \<and> findById (fst (post_login cmp sa sr d em pw)) (uid u) =
           Some (u\<lparr>refreshTokens := refreshTokens u @ [sr (uid u)]\<rparr>)
       \<and> findById (foldl (\<lambda>d sr. fst (post_login cmp sa sr d em pw)) d srs) (uid u) =
           Some (u\<lparr>refreshTokens := refreshTokens u @ map (\<lambda>sr. sr (uid u)) srs\<rparr>)"
proof (intro conjI)
  show "post_login cmp sa sr d em pw =
           (map (\<lambda>x. if uid x = uid u
                     then u\<lparr>refreshTokens := refreshTokens u @ [sr (uid u)]\<rparr> else x) d,
            Inr (sa (uid u), sr (uid u)))"
    using assms by (simp add: login_ok save_map)
  show "findById (foldl (\<lambda>d sr. fst (post_login cmp sa sr d em pw)) d srs) (uid u) =
           Some (u\<lparr>refreshTokens := refreshTokens u @ map (\<lambda>sr. sr (uid u)) srs\<rparr>)"
    using assms by (rule login_many)
  have "findById (foldl (\<lambda>d sr. fst (post_login cmp sa sr d em pw)) d [sr]) (uid u) =
           Some (u\<lparr>refreshTokens := refreshTokens u @ map (\<lambda>sr. sr (uid u)) [sr]\<rparr>)"
    using assms by (rule login_many)
  then show "findById (fst (post_login cmp sa sr d em pw)) (uid u) =
           Some (u\<lparr>refreshTokens := refreshTokens u @ [sr (uid u)]\<rparr>)"
    by simp
qed

theorem login_appends_refresh_token_witness:
  "post_login (\<lambda>p h. h = ''hash:'' @ p) (\<lambda>i. ''access.'' @ i) (\<lambda>i. ''refresh.'' @ i @ ''.2'')
     [\<lparr>uid = ''u1'', email = ''a@x.io'', password = ''hash:pw'', orders = [], cart = [],
       refreshTokens = [''refresh.u1.1'']\<rparr>] ''a@x.io'' ''pw'' =
   ([\<lparr>uid = ''u1'', email = ''a@x.io'', password = ''hash:pw'', orders = [], cart = [],
      refreshTokens = [''refresh.u1.1'', ''refresh.u1.2'']\<rparr>],
    Inr (''access.u1'', ''refresh.u1.2''))"
  using login_appends_refresh_token
    [where d = "[\<lparr>uid = ''u1'', email = ''a@x.io'', password = ''hash:pw'', orders = [], cart = [],
                  refreshTokens = [''refresh.u1.1'']\<rparr>]"
       and em = "''a@x.io''" and pw = "''pw''"
       and u = "\<lparr>uid = ''u1'', email = ''a@x.io'', password = ''hash:pw'', orders = [], cart = [],
                  refreshTokens = [''refresh.u1.1'']\<rparr>"
       and cmp = "\<lambda>p h. h = ''hash:'' @ p" and sa = "\<lambda>i. ''access.'' @ i"
       and sr = "\<lambda>i. ''refresh.'' @ i @ ''.2''" and srs = "[]"]
  by (simp add: findOne_email_def)

section \<open>Rotation of refresh tokens\<close>

text \<open>
  \<open>jwt.sign\<close> on the payload \<open>{ id }\<close> adds \<open>iat\<close>, the clock in whole seconds, and signs
  with an HMAC: two calls for one \<open>id\<close> within one second return the same string. Below,
  a user logs in and rotates the token within the same second: \<open>/refresh\<close> filters the old
  token out and pushes the same string back, so the old token still identifies the user
  after the successful rotation.
\<close>

theorem refresh_same_second_counterexample:
  "post_login (\<lambda>p h. h = ''hash:'' @ p) (\<lambda>i. ''a.'' @ i) (\<lambda>i. ''r.'' @ i @ ''.7'')
     [\<lparr>uid = ''u1'', email = ''a@x.io'', password = ''hash:pw'', orders = [], cart = [],
       refreshTokens = []\<rparr>] ''a@x.io'' ''pw'' =
     ([\<lparr>uid = ''u1'', email = ''a@x.io'', password = ''hash:pw'', orders = [], cart = [],
        refreshTokens = [''r.u1.7'']\<rparr>], Inr (''a.u1'', ''r.u1.7''))
   \<and> post_refresh (\<lambda>i. ''a.'' @ i) (\<lambda>i. ''r.'' @ i @ ''.7'')
       (\<lambda>t. if t = ''r.u1.7'' then Some ''u1'' else None)
       [\<lparr>uid = ''u1'', email = ''a@x.io'', password = ''hash:pw'', orders = [], cart = [],
         refreshTokens = [''r.u1.7'']\<rparr>] (Some ''r.u1.7'') =
     ([\<lparr>uid = ''u1'', email = ''a@x.io'', password = ''hash:pw'', orders = [], cart = [],
        refreshTokens = [''r.u1.7'']\<rparr>], Inr (''a.u1'', ''r.u1.7''))
   \<and> findOne_refreshToken
       [\<lparr>uid = ''u1'', email = ''a@x.io'', password = ''hash:pw'', orders = [], cart = [],
         refreshTokens = [''r.u1.7'']\<rparr>] ''r.u1.7'' =
     Some \<lparr>uid = ''u1'', email = ''a@x.io'', password = ''hash:pw'', orders = [], cart = [],
         refreshTokens = [''r.u1.7'']\<rparr>"
  by (simp add: post_login_def post_refresh_def findOne_email_def findOne_refreshToken_def save_def Let_def)


text \<open>
  C1 (as amended). In a stored collection, let \<open>old\<close> be a refresh token of user \<open>u\<close> and
  let \<open>POST /refresh\<close> with \<open>old\<close> succeed with a new refresh token that differs from
  \<open>old\<close> (and that \<open>jwt.verify\<close> decodes to the user, as it does for what \<open>jwt.sign\<close>
  made). Then the route made one write, of \<open>u\<close> with every copy of \<open>old\<close> filtered out and
  the new token appended. Afterwards \<open>old\<close> identifies no user and a further rotation with
  it is answered 403, whatever is signed then; the new token identifies the user, and the
  next rotation with it succeeds; once that rotation has signed a different token, the new
  token identifies no user any more.
\<close>

theorem refresh_rotates_token:
  assumes wf: "wf_tokens vr d"
      and u: "u \<in> set d" and held: "old \<in> set (refreshTokens u)"
      and ok: "post_refresh sa sr vr d (Some old) = (d', Inr (acc, new))"
      and fresh: "new \<noteq> old" and nonempty: "new \<noteq> []"
      and signed: "vr new = Some (uid u)"
  shows "acc = sa (uid u) \<and> new = sr (uid u)
       \<and> d' = save d (u\<lparr>refreshTokens := filter (\<lambda>t. t \<noteq> old) (refreshTokens u) @ [new]\<rparr>)
       \<and> findOne_refreshToken d' old = None
       \<and> snd (post_refresh sa1 sr1 vr1 d' (Some old)) = Inl Forbidden
       \<and> findOne_refreshToken d' new =
             Some (u\<lparr>refreshTokens := filter (\<lambda>t. t \<noteq> old) (refreshTokens u) @ [new]\<rparr>)
       \<and> wf_tokens vr d'
       \<and> snd (post_refresh sa2 sr2 vr d' (Some new)) = Inr (sa2 (uid u), sr2 (uid u))
       \<and> (sr2 (uid u) \<noteq> new \<longrightarrow>
             findOne_refreshToken (fst (post_refresh sa2 sr2 vr d' (Some new))) new = None)"
proof -
  let ?u1 = "u\<lparr>refreshTokens := filter (\<lambda>t. t \<noteq> old) (refreshTokens u) @ [new]\<rparr>"
  from ok have old_ne: "old \<noteq> []" by (rule refresh_success_nonempty)
  from refresh_ok[OF wf u held old_ne, of sa sr] ok
  have acc: "acc = sa (uid u)" and new: "new = sr (uid u)" and d': "d' = save d ?u1"
    by simp_all
  from wf have dist: "distinct (map uid d)" by (simp add: wf_tokens_def)
  have gone: "findOne_refreshToken d' old = None"
    unfolding d' by (rule token_gone_after_save[OF wf u held]) (use fresh in simp_all)
  then have again: "snd (post_refresh sa1 sr1 vr1 d' (Some old)) = Inl Forbidden"
    using old_ne by (simp add: post_refresh_def)
  have bound: "\<forall>t \<in> set (refreshTokens ?u1). vr t = Some (uid u)"
    using wf_tokens_bound[OF wf u] signed by auto
  have wf': "wf_tokens vr d'"
    unfolding d' by (rule wf_tokens_save[OF wf u _ bound]) simp
  have u1: "?u1 \<in> set d'"
    unfolding d' by (rule in_set_save[OF dist u]) simp
  have held1: "new \<in> set (refreshTokens ?u1)" by simp
  have holder: "findOne_refreshToken d' new = Some ?u1"
    using wf' u1 held1 by (rule holder_unique)
  let ?u2 = "?u1\<lparr>refreshTokens := filter (\<lambda>x. x \<noteq> new) (refreshTokens ?u1) @ [sr2 (uid ?u1)]\<rparr>"
  have next_ok: "post_refresh sa2 sr2 vr d' (Some new) = (save d' ?u2, Inr (sa2 (uid ?u1), sr2 (uid ?u1)))"
    using wf' u1 held1 nonempty by (rule refresh_ok)
  then have next_res: "snd (post_refresh sa2 sr2 vr d' (Some new)) = Inr (sa2 (uid u), sr2 (uid u))"
    by simp
  have once: "sr2 (uid u) \<noteq> new \<longrightarrow>
      findOne_refreshToken (fst (post_refresh sa2 sr2 vr d' (Some new))) new = None"
  proof
    assume ne: "sr2 (uid u) \<noteq> new"
    have "findOne_refreshToken (save d' ?u2) new = None"
      by (rule token_gone_after_save[OF wf' u1 held1]) (use ne in simp_all)
    with next_ok show "findOne_refreshToken (fst (post_refresh sa2 sr2 vr d' (Some new))) new = None"
      by simp
  qed
  from acc new d' gone again holder wf' next_res once show ?thesis by blast
qed

theorem refresh_rotates_token_witness:
  "wf_tokens (\<lambda>t. if t = ''r.u1.7'' \<or> t = ''r.u1.8'' then Some ''u1'' else None)
     [\<lparr>uid = ''u1'', email = ''a@x.io'', password = ''h'', orders = [], cart = [],
       refreshTokens = [''r.u1.7'']\<rparr>]
   \<and> post_refresh (\<lambda>i. ''a.'' @ i) (\<lambda>i. ''r.'' @ i @ ''.8'')
       (\<lambda>t. if t = ''r.u1.7'' \<or> t = ''r.u1.8'' then Some ''u1'' else None)
       [\<lparr>uid = ''u1'', email = ''a@x.io'', password = ''h'', orders = [], cart = [],
         refreshTokens = [''r.u1.7'']\<rparr>] (Some ''r.u1.7'') =
      ([\<lparr>uid = ''u1'', email = ''a@x.io'', password = ''h'', orders = [], cart = [],
         refreshTokens = [''r.u1.8'']\<rparr>], Inr (''a.u1'', ''r.u1.8''))
   \<and> findOne_refreshToken
        [\<lparr>uid = ''u1'', email = ''a@x.io'', password = ''h'', orders = [], cart = [],
          refreshTokens = [''r.u1.8'']\<rparr>] ''r.u1.7'' = None
   \<and> snd (post_refresh (\<lambda>i. ''a.'' @ i) (\<lambda>i. ''r.'' @ i @ ''.9'')
        (\<lambda>t. if t = ''r.u1.7'' \<or> t = ''r.u1.8'' then Some ''u1'' else None)
        [\<lparr>uid = ''u1'', email = ''a@x.io'', password = ''h'', orders = [], cart = [],
          refreshTokens = [''r.u1.8'']\<rparr>] (Some ''r.u1.7'')) = Inl Forbidden
   \<and> snd (post_refresh (\<lambda>i. ''a.'' @ i) (\<lambda>i. ''r.'' @ i @ ''.9'')
        (\<lambda>t. if t = ''r.u1.7'' \<or> t = ''r.u1.8'' then Some ''u1'' else None)
        [\<lparr>uid = ''u1'', email = ''a@x.io'', password = ''h'', orders = [], cart = [],
          refreshTokens = [''r.u1.8'']\<rparr>] (Some ''r.u1.8'')) = Inr (''a.u1'', ''r.u1.9'')"
  using refresh_rotates_token
    [where vr = "\<lambda>t. if t = ''r.u1.7'' \<or> t = ''r.u1.8'' then Some ''u1'' else None"
       and d = "[\<lparr>uid = ''u1'', email = ''a@x.io'', password = ''h'', orders = [], cart = [],
                  refreshTokens = [''r.u1.7'']\<rparr>]"
       and u = "\<lparr>uid = ''u1'', email = ''a@x.io'', password = ''h'', orders = [], cart = [],
                  refreshTokens = [''r.u1.7'']\<rparr>"
       and old = "''r.u1.7''" and new = "''r.u1.8''" and acc = "''a.u1''"
       and sa = "\<lambda>i. ''a.'' @ i" and sr = "\<lambda>i. ''r.'' @ i @ ''.8''"
       and d' = "[\<lparr>uid = ''u1'', email = ''a@x.io'', password = ''h'', orders = [], cart = [],
                  refreshTokens = [''r.u1.8'']\<rparr>]"
       and ?sa1.0 = "\<lambda>i. ''a.'' @ i" and ?sr1.0 = "\<lambda>i. ''r.'' @ i @ ''.9''"
       and ?vr1.0 = "\<lambda>t. if t = ''r.u1.7'' \<or> t = ''r.u1.8'' then Some ''u1'' else None"
       and ?sa2.0 = "\<lambda>i. ''a.'' @ i" and ?sr2.0 = "\<lambda>i. ''r.'' @ i @ ''.9''"]
  by (simp add: wf_tokens_def post_refresh_def findOne_refreshToken_def save_def Let_def)

section \<open>Revocation of refresh tokens\<close>

lemma logout_found:
  "findOne_refreshToken d t = Some u \<Longrightarrow> t \<noteq> [] \<Longrightarrow>
   post_logout d (Some t) =
     (save d (u\<lparr>refreshTokens := filter (\<lambda>x. x \<noteq> t) (refreshTokens u)\<rparr>), Inr ())"
  by (simp add: post_logout_def)

lemma logout_unknown:
  "findOne_refreshToken d t = None \<Longrightarrow> t \<noteq> [] \<Longrightarrow> post_logout d (Some t) = (d, Inl Forbidden)"
  by (simp add: post_logout_def)

lemma no_holder_iff:
  "findOne_refreshToken d t = None \<longleftrightarrow> (\<forall>u \<in> set d. t \<notin> set (refreshTokens u))"
  by (auto simp: findOne_refreshToken_def find_None_iff)

text \<open>
  A second \<open>POST /logout\<close> with a token the first one removed finds no user and is answered
  403.
\<close>

theorem logout_repeat_counterexample:
  "post_logout
     [\<lparr>uid = ''u1'', email = ''a@x.io'', password = ''h'', orders = [], cart = [],
       refreshTokens = [''r.u1.7'']\<rparr>] (Some ''r.u1.7'') =
     ([\<lparr>uid = ''u1'', email = ''a@x.io'', password = ''h'', orders = [], cart = [],
        refreshTokens = []\<rparr>], Inr ())
   \<and> post_logout
       [\<lparr>uid = ''u1'', email = ''a@x.io'', password = ''h'', orders = [], cart = [],
         refreshTokens = []\<rparr>] (Some ''r.u1.7'') =
     ([\<lparr>uid = ''u1'', email = ''a@x.io'', password = ''h'', orders = [], cart = [],
        refreshTokens = []\<rparr>], Inl Forbidden)"
  by (simp add: post_logout_def findOne_refreshToken_def save_def)


text \<open>
  C2 (as amended). For a token that is not empty, \<open>POST /logout\<close> answers with an error
  exactly when no user holds the token, and the error is 403. When a user holds it, the
  route writes that user with every copy of the token filtered out of \<open>refreshTokens\<close>, the
  other tokens kept, and answers success. In a stored collection no user holds the token
  after the request, so the same request repeated is answered 403 and changes nothing: it is
  an error, not a success.
\<close>

theorem logout_revokes_token:
  assumes "t \<noteq> []"
  shows "(isl (snd (post_logout d (Some t))) \<longleftrightarrow> (\<forall>u \<in> set d. t \<notin> set (refreshTokens u)))
       \<and> (snd (post_logout d (Some t)) = Inl Forbidden \<longleftrightarrow>
           (\<forall>u \<in> set d. t \<notin> set (refreshTokens u)))
       \<and> (\<forall>u. findOne_refreshToken d t = Some u \<longrightarrow>
             post_logout d (Some t) =
               (save d (u\<lparr>refreshTokens := filter (\<lambda>x. x \<noteq> t) (refreshTokens u)\<rparr>), Inr ())
             \<and> t \<notin> set (filter (\<lambda>x. x \<noteq> t) (refreshTokens u)))
       \<and> (wf_tokens vr d \<longrightarrow>
             findOne_refreshToken (fst (post_logout d (Some t))) t = None
             \<and> post_logout (fst (post_logout d (Some t))) (Some t) =
                 (fst (post_logout d (Some t)), Inl Forbidden))"
proof (cases "findOne_refreshToken d t")
  case None
  then have "post_logout d (Some t) = (d, Inl Forbidden)" using assms by (rule logout_unknown)
  with None assms show ?thesis by (simp add: no_holder_iff[symmetric] logout_unknown)
next
  case (Some u)
  let ?u' = "u\<lparr>refreshTokens := filter (\<lambda>x. x \<noteq> t) (refreshTokens u)\<rparr>"
  from Some have res: "post_logout d (Some t) = (save d ?u', Inr ())"
    using assms by (rule logout_found)
  from Some have u: "u \<in> set d" and held: "t \<in> set (refreshTokens u)"
    using find_in_set[of "\<lambda>u. t \<in> set (refreshTokens u)" d u]
    by (simp_all add: findOne_refreshToken_def)
  have some: "\<not> (\<forall>u \<in> set d. t \<notin> set (refreshTokens u))" using u held by blast
  have repeat: "wf_tokens vr d \<longrightarrow>
             findOne_refreshToken (fst (post_logout d (Some t))) t = None
             \<and> post_logout (fst (post_logout d (Some t))) (Some t) =
                 (fst (post_logout d (Some t)), Inl Forbidden)"
  proof
    assume wf: "wf_tokens vr d"
    have "findOne_refreshToken (save d ?u') t = None"
      by (rule token_gone_after_save[OF wf u held]) simp_all
    with res assms show "findOne_refreshToken (fst (post_logout d (Some t))) t = None
             \<and> post_logout (fst (post_logout d (Some t))) (Some t) =
                 (fst (post_logout d (Some t)), Inl Forbidden)"
      by (simp add: logout_unknown)
  qed
  from res Some some repeat show ?thesis by simp
qed

theorem logout_revokes_token_witness:
  "post_logout
     [\<lparr>uid = ''u1'', email = ''a@x.io'', password = ''h'', orders = [], cart = [],
       refreshTokens = [''r.u1.7'', ''r.u1.9'']\<rparr>] (Some ''r.u1.7'') =
     ([\<lparr>uid = ''u1'', email = ''a@x.io'', password = ''h'', orders = [], cart = [],
        refreshTokens = [''r.u1.9'']\<rparr>], Inr ())
   \<and> wf_tokens (\<lambda>t. Some ''u1'')
       [\<lparr>uid = ''u1'', email = ''a@x.io'', password = ''h'', orders = [], cart = [],
         refreshTokens = [''r.u1.7'', ''r.u1.9'']\<rparr>]
   \<and> post_logout
       [\<lparr>uid = ''u1'', email = ''a@x.io'', password = ''h'', orders = [], cart = [],
         refreshTokens = [''r.u1.9'']\<rparr>] (Some ''r.u1.7'') =
     ([\<lparr>uid = ''u1'', email = ''a@x.io'', password = ''h'', orders = [], cart = [],
        refreshTokens = [''r.u1.9'']\<rparr>], Inl Forbidden)"
  using logout_revokes_token
    [where t = "''r.u1.7''" and vr = "\<lambda>t. Some ''u1''"
       and d = "[\<lparr>uid = ''u1'', email = ''a@x.io'', password = ''h'', orders = [], cart = [],
                  refreshTokens = [''r.u1.7'', ''r.u1.9'']\<rparr>]"]
  by (simp add: wf_tokens_def post_logout_def findOne_refreshToken_def save_def)

section \<open>Facts about the arithmetic and the lists\<close>

text \<open>
  Below \<open>2^53\<close> in magnitude every integer is a double, so the sum, the difference and the
  product of two integers are exact when the result stays within that bound.
\<close>

lemma shift53_small: "a < 2 ^ 53 \<Longrightarrow> shift53 a = 0"
  by (simp add: shift53.simps)

lemma rd_exact: "safe x \<Longrightarrow> rd x = Finite x"
proof -
  assume "safe x"
  then have b: "\<bar>x\<bar> < 2 ^ 53" by (simp add: safe_def)
  then have e: "shift53 \<bar>x\<bar> = 0" by (rule shift53_small)
  have "(2::int) ^ 53 \<le> 2 ^ 1024" by (rule power_increasing) simp_all
  with b have big: "\<not> 2 ^ 1024 \<le> \<bar>x\<bar>" by linarith
  have "rd x = (if 2 ^ 1024 \<le> \<bar>x\<bar> then (if x < 0 then MinusInfinity else PlusInfinity)
         else Finite (if x < 0 then - \<bar>x\<bar> else \<bar>x\<bar>))"
    unfolding rd_def Let_def e by simp
  also have "\<dots> = Finite (if x < 0 then - \<bar>x\<bar> else \<bar>x\<bar>)" using big by (simp only: if_False)
  also have "\<dots> = Finite x" by simp
  finally show ?thesis .
qed

lemma safe_le: "\<bar>a\<bar> \<le> b \<Longrightarrow> safe b \<Longrightarrow> safe a"
  by (simp add: safe_def)

lemma js_add_exact: "safe (a + b) \<Longrightarrow> js_add (Finite a) (Finite b) = Finite (a + b)"
  by (simp add: rd_exact)

lemma js_mul_exact: "safe (a * b) \<Longrightarrow> js_mul (Finite a) (Finite b) = Finite (a * b)"
  by (simp add: rd_exact)

lemma js_sub_exact: "safe (a - b) \<Longrightarrow> js_sub (Finite a) (Finite b) = Finite (a - b)"
  by (simp add: js_sub_def rd_exact)

lemma is_finite_iff: "is_finite x \<longleftrightarrow> (\<exists>n. x = Finite n)"
  by (cases x) auto

lemma rd_2_53_1: "rd (2 ^ 53 + 1) = Finite (2 ^ 53)"
  by code_simp


lemma find_update_first:
  "List.find P xs = Some x \<Longrightarrow> P (f x) \<Longrightarrow> List.find P (update_first P f xs) = Some (f x)"
  by (induction xs) (auto split: if_splits)

lemma length_update_first: "length (update_first P f xs) = length xs"
  by (induction xs) auto

lemma findById_uid: "findById d i = Some u \<Longrightarrow> uid u = i"
  using find_in_set[of "\<lambda>u. uid u = i" d u] by (simp add: findById_def)

lemma findById_save:
  "findById d i = Some u \<Longrightarrow> uid u' = i \<Longrightarrow> findById (save d u') i = Some u'"
  unfolding findById_def save_def
  using find_update_first[of "\<lambda>x. uid x = i" d u "\<lambda>_. u'"] by simp

lemma save_save: "uid u1 = uid u2 \<Longrightarrow> save (save d u1) u2 = save d u2"
  unfolding save_def by (induction d) auto

lemma snapshot_simps:
  "productId (snapshot info p) = productId p"
  "quantity (snapshot info p) = quantity p"
  "name (snapshot info p) = map_option info_name (own_value info)"
  "imageUrl (snapshot info p) = map_option info_imageUrl (own_value info)"
  "price (snapshot info p) = map_option info_price (own_value info)"
  by (simp_all add: snapshot_def)

lemma order_after_write:
  assumes u: "findById d i = Some u" and ord: "orders_id u orderId = Some ord"
      and oid: "oid ord' = oid ord"
  shows "findById (save d (u\<lparr>orders := update_first (\<lambda>x. oid x = orderId) (\<lambda>_. ord') (orders u)\<rparr>)) i =
           Some (u\<lparr>orders := update_first (\<lambda>x. oid x = orderId) (\<lambda>_. ord') (orders u)\<rparr>)
       \<and> orders_id (u\<lparr>orders := update_first (\<lambda>x. oid x = orderId) (\<lambda>_. ord') (orders u)\<rparr>) orderId =
           Some ord'"
proof
  show "findById (save d (u\<lparr>orders := update_first (\<lambda>x. oid x = orderId) (\<lambda>_. ord') (orders u)\<rparr>)) i =
           Some (u\<lparr>orders := update_first (\<lambda>x. oid x = orderId) (\<lambda>_. ord') (orders u)\<rparr>)"
    using u findById_uid[OF u] by (intro findById_save) simp_all
  from ord have "oid ord = orderId"
    using find_in_set[of "\<lambda>x. oid x = orderId" "orders u" ord] by (simp add: orders_id_def)
  with ord oid
  have "List.find (\<lambda>x. oid x = orderId) (update_first (\<lambda>x. oid x = orderId) (\<lambda>_. ord') (orders u)) =
      Some ord'"
    by (intro find_update_first) (simp_all add: orders_id_def)
  then show "orders_id (u\<lparr>orders := update_first (\<lambda>x. oid x = orderId) (\<lambda>_. ord') (orders u)\<rparr>)
      orderId = Some ord'"
    by (simp add: orders_id_def)
qed

section \<open>Adding to the cart\<close>

text \<open>
  The loop of \<open>POST /cart\<close> against the cart of the specification: one step of the loop,
  and what it does to the cart that the specification describes for the rest of the batch.
\<close>

lemma cart_loop_step:
  "js_get cat (productId p) \<noteq> Undefined \<Longrightarrow>
   cart_loop cat (p # ps) c =
     (case List.find (\<lambda>item. productId item = productId p) c of
        Some existing \<Rightarrow>
          cart_loop cat ps
            (update_first (\<lambda>item. productId item = productId p)
               (\<lambda>e. e\<lparr>quantity := js_add (quantity e) (quantity p)\<rparr>) c)
      | None \<Rightarrow> cart_loop cat ps (c @ [snapshot (js_get cat (productId p)) p]))"
  by (cases "js_get cat (productId p)") (simp_all split: option.splits)

lemma new_ids_notin: "k \<in> set (new_ids seen ks) \<Longrightarrow> k \<notin> set seen"
proof (induction ks arbitrary: seen)
  case Nil
  then show ?case by simp
next
  case (Cons a ks)
  show ?case
  proof (cases "a \<in> set seen")
    case True
    with Cons show ?thesis by simp
  next
    case False
    with Cons.prems have "k = a \<or> k \<in> set (new_ids (a # seen) ks)" by simp
    then show ?thesis
    proof
      assume "k = a"
      with False show ?thesis by simp
    next
      assume "k \<in> set (new_ids (a # seen) ks)"
      then have "k \<notin> set (a # seen)" by (rule Cons.IH)
      then show ?thesis by simp
    qed
  qed
qed

lemma new_ids_cong: "set seen = set seen' \<Longrightarrow> new_ids seen ks = new_ids seen' ks"
proof (induction ks arbitrary: seen seen')
  case Nil
  then show ?case by simp
next
  case (Cons k ks)
  from Cons.prems have "set (k # seen) = set (k # seen')" by simp
  then have "new_ids (k # seen) ks = new_ids (k # seen') ks" by (rule Cons.IH)
  moreover have "new_ids seen ks = new_ids seen' ks" using Cons.prems by (rule Cons.IH)
  ultimately show ?case using Cons.prems by simp
qed

lemma requested_Cons:
  "requested (p # ps) k = (if productId p = k then int_of (quantity p) else 0) + requested ps k"
  by (simp add: requested_def)

text \<open>Adding to the one item of a product changes the sum of magnitudes by at most \<open>\<bar>q\<bar>\<close>.\<close>

lemma abs_sum_bump:
  "distinct (map productId c) \<Longrightarrow>
   (\<Sum>it\<leftarrow>map (\<lambda>it. if productId it = k
                      then it\<lparr>quantity := Finite (int_of (quantity it) + q)\<rparr> else it) c.
        \<bar>int_of (quantity it)\<bar>)
   \<le> (\<Sum>it\<leftarrow>c. \<bar>int_of (quantity it)\<bar>) + \<bar>q\<bar>"
proof (induction c)
  case Nil
  then show ?case by simp
next
  case (Cons x xs)
  show ?case
  proof (cases "productId x = k")
    case True
    with Cons.prems have "\<forall>y \<in> set xs. productId y \<noteq> k" by (auto simp: image_iff)
    then have "map (\<lambda>it. if productId it = k
                      then it\<lparr>quantity := Finite (int_of (quantity it) + q)\<rparr> else it) xs = xs"
      by (intro map_idI) simp
    with True show ?thesis by simp
  next
    case False
    with Cons show ?thesis by simp
  qed
qed

lemma abs_item_le_sum:
  "x \<in> set c \<Longrightarrow> \<bar>int_of (quantity x)\<bar> \<le> (\<Sum>it\<leftarrow>c. \<bar>int_of (quantity it)\<bar>)"
proof (induction c)
  case Nil
  then show ?case by simp
next
  case (Cons y ys)
  have nn: "0 \<le> (\<Sum>it\<leftarrow>ys. \<bar>int_of (quantity it)\<bar>)" by (rule sum_list_nonneg) auto
  show ?case
  proof (cases "x = y")
    case True
    with nn show ?thesis by simp
  next
    case False
    with Cons have "\<bar>int_of (quantity x)\<bar> \<le> (\<Sum>it\<leftarrow>ys. \<bar>int_of (quantity it)\<bar>)" by simp
    then show ?thesis by simp
  qed
qed


lemma finite_int_of: "is_finite x \<Longrightarrow> Finite (int_of x) = x"
  by (cases x) auto

lemma spec_cart_Nil:
  "list_all (\<lambda>it. is_finite (quantity it)) c \<Longrightarrow> spec_cart cat c [] = c"
proof -
  assume fin: "list_all (\<lambda>it. is_finite (quantity it)) c"
  have "map (\<lambda>it. it\<lparr>quantity := Finite (int_of (quantity it) + requested [] (productId it))\<rparr>) c = c"
  proof (rule map_idI)
    fix it assume "it \<in> set c"
    with fin have "is_finite (quantity it)" by (simp add: list_all_iff)
    then show "it\<lparr>quantity := Finite (int_of (quantity it) + requested [] (productId it))\<rparr> = it"
      by (simp add: requested_def finite_int_of)
  qed
  then show ?thesis by (simp add: spec_cart_def)
qed

lemma bump_eq:
  assumes dist: "distinct (map productId c)"
      and fin: "list_all (\<lambda>it. is_finite (quantity it)) c"
      and bound: "safe ((\<Sum>it\<leftarrow>c. \<bar>int_of (quantity it)\<bar>) + \<bar>q\<bar>)"
  shows "update_first (\<lambda>item. productId item = k)
           (\<lambda>e. e\<lparr>quantity := js_add (quantity e) (Finite q)\<rparr>) c =
         map (\<lambda>it. if productId it = k
                    then it\<lparr>quantity := Finite (int_of (quantity it) + q)\<rparr> else it) c"
proof -
  have "update_first (\<lambda>item. productId item = k)
           (\<lambda>e. e\<lparr>quantity := js_add (quantity e) (Finite q)\<rparr>) c =
        map (\<lambda>it. if productId it = k
                   then it\<lparr>quantity := js_add (quantity it) (Finite q)\<rparr> else it) c"
    using dist by (rule update_first_map)
  also have "\<dots> = map (\<lambda>it. if productId it = k
                    then it\<lparr>quantity := Finite (int_of (quantity it) + q)\<rparr> else it) c"
  proof (rule map_cong[OF refl])
    fix it assume mem: "it \<in> set c"
    with fin obtain a where a: "quantity it = Finite a"
      by (auto simp: list_all_iff is_finite_iff)
    have "\<bar>a + q\<bar> \<le> \<bar>int_of (quantity it)\<bar> + \<bar>q\<bar>" using a by simp
    also have "\<dots> \<le> (\<Sum>it\<leftarrow>c. \<bar>int_of (quantity it)\<bar>) + \<bar>q\<bar>"
      using abs_item_le_sum[OF mem] by simp
    finally have "safe (a + q)" using bound by (rule safe_le)
    then have "js_add (Finite a) (Finite q) = Finite (a + q)" by (rule js_add_exact)
    with a show "(if productId it = k
                   then it\<lparr>quantity := js_add (quantity it) (Finite q)\<rparr> else it) =
                 (if productId it = k
                    then it\<lparr>quantity := Finite (int_of (quantity it) + q)\<rparr> else it)"
      by simp
  qed
  finally show ?thesis .
qed

lemma spec_cart_existing:
  assumes "productId p \<in> set (map productId c)" and "quantity p = Finite q"
  shows "spec_cart cat
           (map (\<lambda>it. if productId it = productId p
                      then it\<lparr>quantity := Finite (int_of (quantity it) + q)\<rparr> else it) c) ps =
         spec_cart cat c (p # ps)"
proof -
  let ?g = "\<lambda>it. if productId it = productId p
                  then it\<lparr>quantity := Finite (int_of (quantity it) + q)\<rparr> else it"
  have ids: "map productId (map ?g c) = map productId c" by (induction c) auto
  have first: "map (\<lambda>it. it\<lparr>quantity := Finite (int_of (quantity it) + requested ps (productId it))\<rparr>)
                 (map ?g c) =
               map (\<lambda>it. it\<lparr>quantity :=
                      Finite (int_of (quantity it) + requested (p # ps) (productId it))\<rparr>) c"
    using assms(2) by (simp add: requested_Cons add.assoc)
  have second: "map (\<lambda>k. snapshot (js_get cat k) \<lparr>productId = k, quantity = Finite (requested ps k)\<rparr>)
                  (new_ids (map productId c) (map productId ps)) =
                map (\<lambda>k. snapshot (js_get cat k)
                           \<lparr>productId = k, quantity = Finite (requested (p # ps) k)\<rparr>)
                  (new_ids (map productId c) (map productId ps))"
  proof (rule map_cong[OF refl])
    fix k assume "k \<in> set (new_ids (map productId c) (map productId ps))"
    then have "k \<notin> set (map productId c)" by (rule new_ids_notin)
    with assms(1) have "productId p \<noteq> k" by auto
    then show "snapshot (js_get cat k) \<lparr>productId = k, quantity = Finite (requested ps k)\<rparr> =
               snapshot (js_get cat k) \<lparr>productId = k, quantity = Finite (requested (p # ps) k)\<rparr>"
      by (simp add: requested_Cons)
  qed
  show ?thesis
    unfolding spec_cart_def ids first using assms(1) second by simp
qed

lemma spec_cart_new:
  assumes "productId p \<notin> set (map productId c)" and "quantity p = Finite q"
  shows "spec_cart cat (c @ [snapshot (js_get cat (productId p)) p]) ps =
         spec_cart cat c (p # ps)"
proof -
  let ?k = "productId p"
  have first: "map (\<lambda>it. it\<lparr>quantity := Finite (int_of (quantity it) + requested ps (productId it))\<rparr>) c =
               map (\<lambda>it. it\<lparr>quantity :=
                      Finite (int_of (quantity it) + requested (p # ps) (productId it))\<rparr>) c"
  proof (rule map_cong[OF refl])
    fix it assume "it \<in> set c"
    with assms(1) have "productId p \<noteq> productId it" by auto
    then show "it\<lparr>quantity := Finite (int_of (quantity it) + requested ps (productId it))\<rparr> =
               it\<lparr>quantity := Finite (int_of (quantity it) + requested (p # ps) (productId it))\<rparr>"
      by (simp add: requested_Cons)
  qed
  have mid: "(snapshot (js_get cat ?k) p)
               \<lparr>quantity := Finite (int_of (quantity (snapshot (js_get cat ?k) p))
                                    + requested ps ?k)\<rparr> =
             snapshot (js_get cat ?k) \<lparr>productId = ?k, quantity = Finite (requested (p # ps) ?k)\<rparr>"
    using assms(2) by (simp add: snapshot_def requested_Cons)
  have seen: "new_ids (map productId c @ [?k]) (map productId ps) =
              new_ids (?k # map productId c) (map productId ps)"
    by (rule new_ids_cong) auto
  have second: "map (\<lambda>k. snapshot (js_get cat k) \<lparr>productId = k, quantity = Finite (requested ps k)\<rparr>)
                  (new_ids (?k # map productId c) (map productId ps)) =
                map (\<lambda>k. snapshot (js_get cat k)
                           \<lparr>productId = k, quantity = Finite (requested (p # ps) k)\<rparr>)
                  (new_ids (?k # map productId c) (map productId ps))"
  proof (rule map_cong[OF refl])
    fix k assume "k \<in> set (new_ids (?k # map productId c) (map productId ps))"
    then have "k \<notin> set (?k # map productId c)" by (rule new_ids_notin)
    then have "productId p \<noteq> k" by auto
    then show "snapshot (js_get cat k) \<lparr>productId = k, quantity = Finite (requested ps k)\<rparr> =
               snapshot (js_get cat k) \<lparr>productId = k, quantity = Finite (requested (p # ps) k)\<rparr>"
      by (simp add: requested_Cons)
  qed
  show ?thesis
    unfolding spec_cart_def using assms(1) first mid seen second
    by (simp add: snapshot_simps)
qed


lemma cart_loop_spec:
  assumes "distinct (map productId c)"
      and "List.find (\<lambda>p. js_get cat (productId p) = Undefined) ps = None"
      and "safe_cart c ps"
  shows "cart_loop cat ps c = Inr (spec_cart cat c ps)"
  using assms
proof (induction ps arbitrary: c)
  case Nil
  then show ?case by (simp add: safe_cart_def spec_cart_Nil)
next
  case (Cons p ps)
  let ?k = "productId p"
  from Cons.prems(2) have res: "js_get cat ?k \<noteq> Undefined"
    and rest: "List.find (\<lambda>p. js_get cat (productId p) = Undefined) ps = None"
    by (auto split: if_splits)
  from Cons.prems(3) obtain q where q: "quantity p = Finite q"
    by (auto simp: safe_cart_def is_finite_iff)
  from Cons.prems(3) q have finc: "list_all (\<lambda>it. is_finite (quantity it)) c"
    and finps: "list_all (\<lambda>p. is_finite (quantity p)) ps"
    and bound: "safe ((\<Sum>it\<leftarrow>c. \<bar>int_of (quantity it)\<bar>) + \<bar>q\<bar>
                      + (\<Sum>p\<leftarrow>ps. \<bar>int_of (quantity p)\<bar>))"
    by (simp_all add: safe_cart_def add.assoc)
  have nnps: "0 \<le> (\<Sum>p\<leftarrow>ps. \<bar>int_of (quantity p)\<bar>)" by (rule sum_list_nonneg) auto
  have nnc: "0 \<le> (\<Sum>it\<leftarrow>c. \<bar>int_of (quantity it)\<bar>)" by (rule sum_list_nonneg) auto
  show ?case
  proof (cases "List.find (\<lambda>item. productId item = ?k) c")
    case None
    then have notin: "?k \<notin> set (map productId c)" by (auto simp: find_None_iff)
    let ?c' = "c @ [snapshot (js_get cat ?k) p]"
    have d': "distinct (map productId ?c')" using Cons.prems(1) notin
      by (simp add: snapshot_simps)
    have s': "safe_cart ?c' ps" using finc finps bound q
      by (simp add: safe_cart_def snapshot_simps)
    have "cart_loop cat (p # ps) c = cart_loop cat ps ?c'"
      using res None by (simp add: cart_loop_step del: cart_loop.simps)
    also have "\<dots> = Inr (spec_cart cat ?c' ps)" using d' rest s' by (rule Cons.IH)
    also have "spec_cart cat ?c' ps = spec_cart cat c (p # ps)"
      using notin q by (rule spec_cart_new)
    finally show ?thesis .
  next
    case (Some existing)
    then have isin: "?k \<in> set (map productId c)"
      using find_in_set[of "\<lambda>item. productId item = ?k" c existing] by force
    let ?g = "\<lambda>it. if productId it = ?k
                    then it\<lparr>quantity := Finite (int_of (quantity it) + q)\<rparr> else it"
    let ?c' = "map ?g c"
    have b1: "safe ((\<Sum>it\<leftarrow>c. \<bar>int_of (quantity it)\<bar>) + \<bar>q\<bar>)"
      using bound nnps nnc by (intro safe_le[OF _ bound]) simp
    have upd: "update_first (\<lambda>item. productId item = ?k)
                 (\<lambda>e. e\<lparr>quantity := js_add (quantity e) (quantity p)\<rparr>) c = ?c'"
      unfolding q using Cons.prems(1) finc b1 by (rule bump_eq)
    have ids: "map productId ?c' = map productId c" by (induction c) auto
    have d': "distinct (map productId ?c')" using Cons.prems(1) by (simp only: ids)
    have fin': "list_all (\<lambda>it. is_finite (quantity it)) ?c'"
      using finc by (auto simp: list_all_iff)
    have nn': "0 \<le> (\<Sum>it\<leftarrow>?c'. \<bar>int_of (quantity it)\<bar>)" by (rule sum_list_nonneg) auto
    have "\<bar>(\<Sum>it\<leftarrow>?c'. \<bar>int_of (quantity it)\<bar>) + (\<Sum>p\<leftarrow>ps. \<bar>int_of (quantity p)\<bar>)\<bar>
          \<le> (\<Sum>it\<leftarrow>c. \<bar>int_of (quantity it)\<bar>) + \<bar>q\<bar> + (\<Sum>p\<leftarrow>ps. \<bar>int_of (quantity p)\<bar>)"
      using abs_sum_bump[OF Cons.prems(1), of ?k q] nn' nnps by linarith
    then have "safe ((\<Sum>it\<leftarrow>?c'. \<bar>int_of (quantity it)\<bar>) + (\<Sum>p\<leftarrow>ps. \<bar>int_of (quantity p)\<bar>))"
      using bound by (rule safe_le)
    with fin' finps have s': "safe_cart ?c' ps" by (simp add: safe_cart_def)
    have "cart_loop cat (p # ps) c = cart_loop cat ps ?c'"
      using res Some upd by (simp add: cart_loop_step del: cart_loop.simps)
    also have "\<dots> = Inr (spec_cart cat ?c' ps)" using d' rest s' by (rule Cons.IH)
    also have "spec_cart cat ?c' ps = spec_cart cat c (p # ps)"
      using isin q by (rule spec_cart_existing)
    finally show ?thesis .
  qed
qed

lemma new_ids_subset: "set (new_ids seen ks) \<subseteq> set ks"
  by (induction ks arbitrary: seen) (auto split: if_splits)

lemma distinct_new_ids: "distinct (new_ids seen ks)"
proof (induction ks arbitrary: seen)
  case Nil
  then show ?case by simp
next
  case (Cons k ks)
  have "k \<notin> set (new_ids (k # seen) ks)" using new_ids_notin[of k "k # seen" ks] by auto
  with Cons show ?case by simp
qed

lemma spec_cart_ids:
  "map productId (spec_cart cat c ps) =
     map productId c @ new_ids (map productId c) (map productId ps)"
  by (simp add: spec_cart_def snapshot_simps comp_def)

lemma spec_cart_distinct:
  "distinct (map productId c) \<Longrightarrow> distinct (map productId (spec_cart cat c ps))"
  unfolding spec_cart_ids using new_ids_notin[of _ "map productId c" "map productId ps"]
  by (auto simp: distinct_new_ids)

lemma spec_cart_castable:
  assumes "list_all item_castable c" and "priced cat ps"
  shows "list_all item_castable (spec_cart cat c ps)"
proof -
  have old: "list_all item_castable
      (map (\<lambda>it. it\<lparr>quantity := Finite (int_of (quantity it) + requested ps (productId it))\<rparr>) c)"
    using assms(1) by (simp add: list_all_iff item_castable_def castable_def)
  have new: "item_castable
      (snapshot (js_get cat k) \<lparr>productId = k, quantity = Finite (requested ps k)\<rparr>)"
    if "k \<in> set (map productId ps)" for k
  proof -
    from that obtain p where "p \<in> set ps" and "productId p = k" by auto
    with assms(2) have "case cat k of None \<Rightarrow> True | Some v \<Rightarrow> castable (info_price v)"
      by (auto simp: priced_def list_all_iff)
    then show ?thesis
      by (cases "cat k") (simp_all add: item_castable_def castable_def snapshot_simps js_get_def)
  qed
  have "list_all item_castable
      (map (\<lambda>k. snapshot (js_get cat k) \<lparr>productId = k, quantity = Finite (requested ps k)\<rparr>)
         (new_ids (map productId c) (map productId ps)))"
    unfolding list_all_iff
    using new new_ids_subset[of "map productId c" "map productId ps"] by auto
  with old show ?thesis by (simp add: spec_cart_def)
qed

text \<open>
  On a cart whose quantity has reached \<open>2^53\<close> the sum with 1 is rounded back to \<open>2^53\<close>:
  the request is answered with success and the quantity of the item is not increased.
\<close>

theorem cart_add_rounded_counterexample:
  "post_cart demo_catalog [demo_user [demo_item ''A'' 9007199254740992] [] []] ''u1''
     [\<lparr>productId = ''A'', quantity = Finite 1\<rparr>] =
     ([demo_user [demo_item ''A'' 9007199254740992] [] []],
      Inr [demo_item ''A'' 9007199254740992])"
proof -
  have "rd 9007199254740993 = Finite 9007199254740992" by code_simp
  then show ?thesis
    by (simp add: post_cart_def demo_catalog_def demo_user_def demo_item_def findById_def
        save_def js_get_def item_castable_def castable_def)
qed

text \<open>
  C4 (as amended). Let the cart of the user hold no product twice and only numbers that the
  database stores, let the catalogue resolve every product of the batch, and let the
  quantities of the cart and of the batch be integers whose magnitudes stay below \<open>2^53\<close>
  together. Then \<open>POST /cart\<close> succeeds, and the cart it saves and returns is the cart of
  the specification, for a batch of any length: every item that was in the cart stays in
  its place, with the quantities the batch requests of its product added to its quantity;
  every product of the batch that the cart did not hold is appended once, as the snapshot
  of the catalogue with the sum of the quantities requested of it. No product identifier
  occurs twice in the saved cart.
\<close>

theorem cart_add_merges:
  assumes u: "findById d i = Some u" and ne: "ps \<noteq> []"
      and dist: "distinct (map productId (cart u))"
      and stored: "list_all item_castable (cart u)"
      and res: "List.find (\<lambda>p. js_get cat (productId p) = Undefined) ps = None"
      and prices: "priced cat ps"
      and bound: "safe_cart (cart u) ps"
  shows "post_cart cat d i ps =
           (save d (u\<lparr>cart := spec_cart cat (cart u) ps\<rparr>), Inr (spec_cart cat (cart u) ps))
       \<and> map productId (spec_cart cat (cart u) ps) =
           map productId (cart u) @ new_ids (map productId (cart u)) (map productId ps)
       \<and> distinct (map productId (spec_cart cat (cart u) ps))"
proof -
  have loop: "cart_loop cat ps (cart u) = Inr (spec_cart cat (cart u) ps)"
    using dist res bound by (rule cart_loop_spec)
  have ok: "list_all item_castable (spec_cart cat (cart u) ps)"
    using stored prices by (rule spec_cart_castable)
  have "post_cart cat d i ps =
          (save d (u\<lparr>cart := spec_cart cat (cart u) ps\<rparr>), Inr (spec_cart cat (cart u) ps))"
    using u ne loop ok by (simp add: post_cart_def)
  then show ?thesis using spec_cart_ids[of cat "cart u" ps] spec_cart_distinct[OF dist, of cat ps]
    by simp
qed

theorem cart_add_merges_witness:
  "findById [demo_user [demo_item ''A'' 2] [] []] ''u1'' = Some (demo_user [demo_item ''A'' 2] [] [])
   \<and> safe_cart [demo_item ''A'' 2] [\<lparr>productId = ''A'', quantity = Finite 3\<rparr>]
   \<and> post_cart demo_catalog [demo_user [demo_item ''A'' 2] [] []] ''u1''
       [\<lparr>productId = ''A'', quantity = Finite 3\<rparr>] =
     ([demo_user [demo_item ''A'' 5] [] []], Inr [demo_item ''A'' 5])
   \<and> safe_cart [demo_item ''A'' 5]
       [\<lparr>productId = ''B'', quantity = Finite 1\<rparr>, \<lparr>productId = ''A'', quantity = Finite 4\<rparr>,
        \<lparr>productId = ''B'', quantity = Finite 2\<rparr>, \<lparr>productId = ''A'', quantity = Finite 1\<rparr>]
   \<and> post_cart demo_catalog [demo_user [demo_item ''A'' 5] [] []] ''u1''
       [\<lparr>productId = ''B'', quantity = Finite 1\<rparr>, \<lparr>productId = ''A'', quantity = Finite 4\<rparr>,
        \<lparr>productId = ''B'', quantity = Finite 2\<rparr>, \<lparr>productId = ''A'', quantity = Finite 1\<rparr>] =
     ([demo_user [demo_item ''A'' 10, demo_item ''B'' 3] [] []],
      Inr [demo_item ''A'' 10, demo_item ''B'' 3])"
  using cart_add_merges
    [where d = "[demo_user [demo_item ''A'' 2] [] []]" and i = "''u1''"
       and u = "demo_user [demo_item ''A'' 2] [] []" and cat = demo_catalog
       and ps = "[\<lparr>productId = ''A'', quantity = Finite 3\<rparr>]"]
    cart_add_merges
    [where d = "[demo_user [demo_item ''A'' 5] [] []]" and i = "''u1''"
       and u = "demo_user [demo_item ''A'' 5] [] []" and cat = demo_catalog
       and ps = "[\<lparr>productId = ''B'', quantity = Finite 1\<rparr>,
                  \<lparr>productId = ''A'', quantity = Finite 4\<rparr>,
                  \<lparr>productId = ''B'', quantity = Finite 2\<rparr>,
                  \<lparr>productId = ''A'', quantity = Finite 1\<rparr>]"]
  by (simp add: demo_catalog_def demo_user_def demo_item_def findById_def save_def js_get_def
      object_prototype_keys_def item_castable_def castable_def priced_def safe_cart_def safe_def
      spec_cart_def requested_def snapshot_def)

section \<open>Batches with a product the catalogue does not hold\<close>

text \<open>
  When the lookup of a product of the batch is \<open>undefined\<close>, the three batch routes answer
  \<open>InvalidProduct\<close> for the first such entry and leave the collection as it was.
\<close>

lemma cart_loop_invalid:
  "List.find (\<lambda>p. js_get cat (productId p) = Undefined) ps = Some p0 \<Longrightarrow>
   cart_loop cat ps c = Inl (InvalidProduct (productId p0))"
proof (induction ps arbitrary: c)
  case Nil
  then show ?case by simp
next
  case (Cons p ps)
  show ?case
  proof (cases "js_get cat (productId p) = Undefined")
    case True
    with Cons.prems show ?thesis by simp
  next
    case False
    with Cons.prems
    have "List.find (\<lambda>p. js_get cat (productId p) = Undefined) ps = Some p0" by simp
    then have "\<And>c'. cart_loop cat ps c' = Inl (InvalidProduct (productId p0))"
      by (rule Cons.IH)
    with False show ?thesis
      by (simp add: cart_loop_step del: cart_loop.simps split: option.splits)
  qed
qed

lemma order_loop_step:
  "js_get cat (productId p) \<noteq> Undefined \<Longrightarrow>
   order_loop cat (p # ps) full tot =
     order_loop cat ps (full @ [snapshot (js_get cat (productId p)) p])
       (js_add tot (js_mul (to_number (price (snapshot (js_get cat (productId p)) p)))
          (quantity p)))"
  by (cases "js_get cat (productId p)") (simp_all add: snapshot_simps)

lemma order_loop_invalid:
  "List.find (\<lambda>p. js_get cat (productId p) = Undefined) ps = Some p0 \<Longrightarrow>
   order_loop cat ps full tot = Inl (InvalidProduct (productId p0))"
proof (induction ps arbitrary: full tot)
  case Nil
  then show ?case by simp
next
  case (Cons p ps)
  show ?case
  proof (cases "js_get cat (productId p) = Undefined")
    case True
    with Cons.prems show ?thesis by simp
  next
    case False
    with Cons.prems
    have "List.find (\<lambda>p. js_get cat (productId p) = Undefined) ps = Some p0" by simp
    then have "\<And>f t. order_loop cat ps f t = Inl (InvalidProduct (productId p0))"
      by (rule Cons.IH)
    with False show ?thesis by (simp add: order_loop_step del: order_loop.simps)
  qed
qed

lemma find_Some_nonempty: "List.find P xs = Some x \<Longrightarrow> xs \<noteq> []"
  by auto

lemma post_cart_undefined_product:
  assumes "List.find (\<lambda>p. js_get cat (productId p) = Undefined) ps = Some p0"
      and "findById d i = Some u"
  shows "post_cart cat d i ps = (d, Inl (InvalidProduct (productId p0)))"
  using assms find_Some_nonempty[OF assms(1)] cart_loop_invalid[OF assms(1)]
  by (simp add: post_cart_def)

lemma post_order_undefined_product:
  assumes "List.find (\<lambda>p. js_get cat (productId p) = Undefined) ps = Some p0"
      and "findById d i = Some u"
      and "lookup_id fakeShippingFeeDatabase shippingId \<noteq> Undefined"
  shows "post_order cat new_id now d i ps couponId shippingId =
           (d, Inl (InvalidProduct (productId p0)))"
  using assms find_Some_nonempty[OF assms(1)] order_loop_invalid[OF assms(1)]
  by (simp add: post_order_def Let_def)

lemma put_order_undefined_product:
  assumes "List.find (\<lambda>p. js_get cat (productId p) = Undefined) ps = Some p0"
      and "findById d i = Some u" and "orders_id u orderId = Some ord"
  shows "put_order castNumber cat now d i orderId ps mth fee cpn =
           (d, Inl (InvalidProduct (productId p0)))"
  using assms order_loop_invalid[OF assms(1)] by (simp add: put_order_def)

text \<open>Every error response of the three batch routes leaves the collection as it was.\<close>

lemma post_cart_error_unchanged:
  "isl (snd (post_cart cat d i ps)) \<Longrightarrow> fst (post_cart cat d i ps) = d"
  by (auto simp: post_cart_def split: option.splits sum.splits if_splits)

lemma post_order_error_unchanged:
  "isl (snd (post_order cat new_id now d i ps couponId shippingId)) \<Longrightarrow>
   fst (post_order cat new_id now d i ps couponId shippingId) = d"
  by (auto simp: post_order_def Let_def split: option.splits sum.splits if_splits)

lemma put_order_error_unchanged:
  "isl (snd (put_order castNumber cat now d i orderId ps mth fee cpn)) \<Longrightarrow>
   fst (put_order castNumber cat now d i orderId ps mth fee cpn) = d"
  by (auto simp: put_order_def Let_def split: option.splits sum.splits if_splits)

text \<open>
  C5. The catalogue of the example holds the products \<open>A\<close> and \<open>B\<close>; it holds no product
  \<open>constructor\<close> and no product \<open>Z\<close>. A batch with the entry \<open>Z\<close> is answered
  \<open>InvalidProduct\<close> and nothing is stored. The lookup of \<open>constructor\<close> finds a member of
  \<open>Object.prototype\<close>, which the test \<open>!info\<close> lets pass: \<open>POST /cart\<close> answers with
  success and saves the whole batch, with an item \<open>constructor\<close> that has no name, no
  image and no price; \<open>POST /order\<close> and \<open>PUT /order/:orderId\<close> compute the total \<open>NaN\<close>
  from it and end without a response of \<open>InvalidProduct\<close>.
\<close>

theorem post_cart_inherited_product:
  "demo_catalog ''constructor'' = None \<and> demo_catalog ''Z'' = None
   \<and> post_cart demo_catalog [demo_user [] [demo_order None] []] ''u1''
       [\<lparr>productId = ''B'', quantity = Finite 1\<rparr>, \<lparr>productId = ''Z'', quantity = Finite 1\<rparr>] =
     ([demo_user [] [demo_order None] []], Inl (InvalidProduct ''Z''))
   \<and> post_cart demo_catalog [demo_user [] [demo_order None] []] ''u1''
       [\<lparr>productId = ''B'', quantity = Finite 1\<rparr>,
        \<lparr>productId = ''constructor'', quantity = Finite 1\<rparr>] =
     ([demo_user
         [demo_item ''B'' 1,
          \<lparr>productId = ''constructor'', quantity = Finite 1, name = None, imageUrl = None,
           price = None\<rparr>] [demo_order None] []],
      Inr [demo_item ''B'' 1,
           \<lparr>productId = ''constructor'', quantity = Finite 1, name = None, imageUrl = None,
            price = None\<rparr>])
   \<and> post_order demo_catalog ''o2'' 7 [demo_user [] [demo_order None] []] ''u1''
       [\<lparr>productId = ''B'', quantity = Finite 1\<rparr>,
        \<lparr>productId = ''constructor'', quantity = Finite 1\<rparr>] None (Some ''123'') =
     ([demo_user [] [demo_order None] []], Inl ServerError)
   \<and> put_order demo_castNumber demo_catalog 7 [demo_user [] [demo_order None] []] ''u1'' ''o1''
       [\<lparr>productId = ''B'', quantity = Finite 1\<rparr>,
        \<lparr>productId = ''constructor'', quantity = Finite 1\<rparr>] None (FeeNumber (Finite 60)) None =
     ([demo_user [] [demo_order None] []], Inl ServerError)"
proof -
  have "rd 35 = Finite 35" by (rule rd_exact) (simp add: safe_def)
  then show ?thesis
    by (simp add: post_cart_def post_order_def put_order_def demo_catalog_def demo_user_def
        demo_order_def demo_item_def findById_def orders_id_def save_def js_get_def
        object_prototype_keys_def item_castable_def order_castable_def castable_def
        snapshot_def lookup_id_def fakeShippingFeeDatabase_def fakeCouponDatabase_def
        apply_coupon_def cast_fee_def Let_def)
qed

section \<open>Order totals\<close>

text \<open>
  The loop of the two order routes: when it ends, the items are the snapshots of the
  entries, and when prices and quantities are integers within the bound the total is their
  exact sum.
\<close>

lemma order_loop_resolved:
  "order_loop cat ps full tot = Inr (full', tot') \<Longrightarrow>
   full' = full @ resolved cat ps
   \<and> List.find (\<lambda>p. js_get cat (productId p) = Undefined) ps = None"
proof (induction ps arbitrary: full tot)
  case Nil
  then show ?case by simp
next
  case (Cons p ps)
  from Cons.prems have res: "js_get cat (productId p) \<noteq> Undefined"
    by (cases "js_get cat (productId p)") auto
  from Cons.prems
  have "order_loop cat ps (full @ [snapshot (js_get cat (productId p)) p])
          (js_add tot (js_mul (to_number (price (snapshot (js_get cat (productId p)) p)))
             (quantity p))) = Inr (full', tot')"
    by (simp add: order_loop_step[OF res] del: order_loop.simps)
  from Cons.IH[OF this] res show ?case by simp
qed

lemma abs_sum_list_le: "\<bar>\<Sum>x\<leftarrow>xs. f x\<bar> \<le> (\<Sum>x\<leftarrow>xs. \<bar>f x :: int\<bar>)"
  by (induction xs) auto

lemma order_loop_exact:
  assumes "List.find (\<lambda>p. js_get cat (productId p) = Undefined) ps = None"
      and "list_all finite_item (resolved cat ps)"
      and "safe (\<bar>t\<bar> + (\<Sum>it\<leftarrow>resolved cat ps. \<bar>line_total it\<bar>))"
  shows "order_loop cat ps full (Finite t) =
           Inr (full @ resolved cat ps, Finite (t + (\<Sum>it\<leftarrow>resolved cat ps. line_total it)))"
  using assms
proof (induction ps arbitrary: full t)
  case Nil
  then show ?case by simp
next
  case (Cons p ps)
  let ?it = "snapshot (js_get cat (productId p)) p"
  from Cons.prems(1) have res: "js_get cat (productId p) \<noteq> Undefined"
    and rest: "List.find (\<lambda>p. js_get cat (productId p) = Undefined) ps = None"
    by (auto split: if_splits)
  from res have r: "resolved cat (p # ps) = ?it # resolved cat ps" by simp
  from Cons.prems(2) have fin: "finite_item ?it" and fins: "list_all finite_item (resolved cat ps)"
    unfolding r by simp_all
  from fin obtain a q where a: "to_number (price ?it) = Finite a" and q: "quantity p = Finite q"
    by (auto simp: finite_item_def is_finite_iff snapshot_simps)
  have lt: "line_total ?it = a * q" using a q by (simp add: line_total_def snapshot_simps)
  have nn: "0 \<le> (\<Sum>it\<leftarrow>resolved cat ps. \<bar>line_total it\<bar>)" by (rule sum_list_nonneg) auto
  from Cons.prems(3)
  have bound: "safe (\<bar>t\<bar> + \<bar>a * q\<bar> + (\<Sum>it\<leftarrow>resolved cat ps. \<bar>line_total it\<bar>))"
    unfolding r by (simp add: lt add.assoc)
  have "safe (a * q)" using nn by (intro safe_le[OF _ bound]) simp
  then have mul: "js_mul (Finite a) (Finite q) = Finite (a * q)" by (rule js_mul_exact)
  have "safe (t + a * q)" using nn by (intro safe_le[OF _ bound]) simp
  then have add: "js_add (Finite t) (Finite (a * q)) = Finite (t + a * q)" by (rule js_add_exact)
  have "safe (\<bar>t + a * q\<bar> + (\<Sum>it\<leftarrow>resolved cat ps. \<bar>line_total it\<bar>))"
    using nn by (intro safe_le[OF _ bound]) simp
  with rest fins
  have "order_loop cat ps (full @ [?it]) (Finite (t + a * q)) =
          Inr ((full @ [?it]) @ resolved cat ps,
               Finite (t + a * q + (\<Sum>it\<leftarrow>resolved cat ps. line_total it)))"
    by (rule Cons.IH)
  then have "order_loop cat ps (full @ [?it])
               (js_add (Finite t) (js_mul (to_number (price ?it)) (quantity p))) =
             Inr (full @ resolved cat (p # ps),
                  Finite (t + (\<Sum>it\<leftarrow>resolved cat (p # ps). line_total it)))"
    unfolding r a q mul add by (simp add: lt add.assoc)
  then show ?case by (simp only: order_loop_step[OF res])
qed

text \<open>The fee and the coupon, on the exact sum of the items.\<close>

lemma total_exact:
  assumes "safe_total items fee cpn"
  shows "apply_coupon cpn
           (case fee of None \<Rightarrow> Finite (\<Sum>it\<leftarrow>items. line_total it)
            | Some f \<Rightarrow> js_add (Finite (\<Sum>it\<leftarrow>items. line_total it)) f) =
         Finite (spec_totalAmount items fee cpn)"
proof -
  let ?S = "\<Sum>it\<leftarrow>items. line_total it"
  let ?f = "case fee of None \<Rightarrow> 0 | Some f \<Rightarrow> int_of f"
  let ?d = "case cpn of None \<Rightarrow> 0 | Some c \<Rightarrow> int_of (discount c)"
  from assms have bound: "safe ((\<Sum>it\<leftarrow>items. \<bar>line_total it\<bar>) + \<bar>?f\<bar> + \<bar>?d\<bar>)"
    by (simp add: safe_total_def split: option.splits)
  have S: "\<bar>?S\<bar> \<le> (\<Sum>it\<leftarrow>items. \<bar>line_total it\<bar>)" by (rule abs_sum_list_le)
  have s1: "safe (?S + ?f)" using S by (intro safe_le[OF _ bound]) linarith
  have step1: "(case fee of None \<Rightarrow> Finite ?S | Some f \<Rightarrow> js_add (Finite ?S) f) =
      Finite (?S + ?f)"
  proof (cases fee)
    case None
    then show ?thesis by simp
  next
    case (Some f)
    with assms obtain n where n: "f = Finite n" by (auto simp: safe_total_def is_finite_iff)
    from s1 Some n have "js_add (Finite ?S) (Finite n) = Finite (?S + n)"
      by (intro js_add_exact) simp
    with Some n show ?thesis by simp
  qed
  have s2: "safe (?S + ?f - ?d)" using S by (intro safe_le[OF _ bound]) linarith
  have step2: "apply_coupon cpn (Finite (?S + ?f)) = Finite (?S + ?f - ?d)"
  proof (cases cpn)
    case None
    then show ?thesis by (simp add: apply_coupon_def)
  next
    case (Some c)
    with assms obtain n where n: "discount c = Finite n"
      by (auto simp: safe_total_def is_finite_iff)
    from s2 Some n have "js_sub (Finite (?S + ?f)) (Finite n) = Finite (?S + ?f - n)"
      by (intro js_sub_exact) simp
    with Some n show ?thesis by (simp add: apply_coupon_def)
  qed
  show ?thesis unfolding step1 step2 by (simp add: spec_totalAmount_def)
qed

lemma safe_total_items:
  assumes "safe_total items fee cpn"
  shows "list_all finite_item items \<and> safe (\<bar>0\<bar> + (\<Sum>it\<leftarrow>items. \<bar>line_total it\<bar>))"
proof -
  let ?f = "case fee of None \<Rightarrow> 0 | Some f \<Rightarrow> \<bar>int_of f\<bar>"
  let ?d = "case cpn of None \<Rightarrow> 0 | Some c \<Rightarrow> \<bar>int_of (discount c)\<bar>"
  from assms have bound: "safe ((\<Sum>it\<leftarrow>items. \<bar>line_total it\<bar>) + ?f + ?d)"
    and fin: "list_all finite_item items"
    by (simp_all add: safe_total_def)
  have nn: "0 \<le> (\<Sum>it\<leftarrow>items. \<bar>line_total it\<bar>)" by (rule sum_list_nonneg) auto
  have "0 \<le> ?f" and "0 \<le> ?d" by (simp_all split: option.splits)
  with nn have "safe (\<bar>0\<bar> + (\<Sum>it\<leftarrow>items. \<bar>line_total it\<bar>))"
    by (intro safe_le[OF _ bound]) linarith
  with fin show ?thesis by simp
qed

lemma order_loop_safe:
  assumes loop: "order_loop cat ps [] (Finite 0) = Inr (full, tot)"
      and safe: "safe_total (resolved cat ps) fee cpn"
  shows "full = resolved cat ps \<and> tot = Finite (\<Sum>it\<leftarrow>resolved cat ps. line_total it)"
proof -
  from order_loop_resolved[OF loop]
  have full: "full = resolved cat ps"
    and res: "List.find (\<lambda>p. js_get cat (productId p) = Undefined) ps = None" by simp_all
  from safe_total_items[OF safe]
  have "list_all finite_item (resolved cat ps)"
    and "safe (\<bar>0\<bar> + (\<Sum>it\<leftarrow>resolved cat ps. \<bar>line_total it\<bar>))" by simp_all
  with res
  have "order_loop cat ps [] (Finite 0) =
          Inr ([] @ resolved cat ps, Finite (0 + (\<Sum>it\<leftarrow>resolved cat ps. line_total it)))"
    by (rule order_loop_exact)
  with loop full show ?thesis by simp
qed

text \<open>What a successful \<open>POST /order\<close> has stored, and what a successful \<open>PUT\<close> has.\<close>

lemma post_order_created:
  assumes u: "findById d i = Some u"
      and ok: "post_order cat new_id now d i ps couponId shippingId = (d', Inr k)"
  shows "\<exists>tot. order_loop cat ps [] (Finite 0) = Inr (resolved cat ps, tot) \<and> k = new_id
           \<and> (\<exists>f. map_option sd_ShippingFee
                     (own_value (lookup_id fakeShippingFeeDatabase shippingId)) = Some f)
           \<and> d' = save d (u\<lparr>orders := orders u @
                  [\<lparr>oid = new_id, products = resolved cat ps,
                    shippingMethod = map_option sd_shippingMethod
                      (own_value (lookup_id fakeShippingFeeDatabase shippingId)),
                    createdAt = now,
                    totalAmount = apply_coupon (own_value (lookup_id fakeCouponDatabase couponId))
                      (js_add tot (to_number (map_option sd_ShippingFee
                         (own_value (lookup_id fakeShippingFeeDatabase shippingId))))),
                    shippingFee = map_option sd_ShippingFee
                      (own_value (lookup_id fakeShippingFeeDatabase shippingId)),
                    order_coupon = own_value (lookup_id fakeCouponDatabase couponId),
                    order_review = None\<rparr>]\<rparr>)"
proof -
  let ?fee = "map_option sd_ShippingFee (own_value (lookup_id fakeShippingFeeDatabase shippingId))"
  let ?cpn = "own_value (lookup_id fakeCouponDatabase couponId)"
  from ok have sd: "lookup_id fakeShippingFeeDatabase shippingId \<noteq> Undefined"
    by (auto simp: post_order_def Let_def split: if_splits)
  from ok sd have ne: "ps \<noteq> []" by (auto simp: post_order_def Let_def split: if_splits)
  from ok sd ne u obtain full tot where loop: "order_loop cat ps [] (Finite 0) = Inr (full, tot)"
    by (cases "order_loop cat ps [] (Finite 0)") (auto simp: post_order_def Let_def)
  from order_loop_resolved[OF loop] have full: "full = resolved cat ps" by simp
  from ok sd ne u loop
  have cast: "castable (apply_coupon ?cpn (js_add tot (to_number ?fee)))"
    by (auto simp: post_order_def Let_def order_castable_def split: if_splits)
  have fee: "\<exists>f. ?fee = Some f"
  proof (cases ?fee)
    case None
    then have "apply_coupon ?cpn (js_add tot (to_number ?fee)) = NotANumber"
      by (cases tot; cases ?cpn) (simp_all add: apply_coupon_def js_sub_def)
    with cast show ?thesis by (simp add: castable_def)
  next
    case (Some f)
    then show ?thesis by (rule exI)
  qed
  from ok sd ne u loop full have "k = new_id \<and> d' = save d (u\<lparr>orders := orders u @
                  [\<lparr>oid = new_id, products = resolved cat ps,
                    shippingMethod = map_option sd_shippingMethod
                      (own_value (lookup_id fakeShippingFeeDatabase shippingId)),
                    createdAt = now,
                    totalAmount = apply_coupon ?cpn (js_add tot (to_number ?fee)),
                    shippingFee = ?fee, order_coupon = ?cpn, order_review = None\<rparr>]\<rparr>)"
    by (auto simp: post_order_def Let_def split: if_splits)
  with loop full fee show ?thesis by blast
qed

lemma put_order_updated:
  assumes u: "findById d i = Some u"
      and ok: "put_order castNumber cat now d i orderId ps mth fee cpn = (d', Inr ())"
  shows "\<exists>ord tot stored_fee. orders_id u orderId = Some ord
           \<and> order_loop cat ps [] (Finite 0) = Inr (resolved cat ps, tot)
           \<and> cast_fee castNumber fee = Some stored_fee
           \<and> d' = save d (u\<lparr>orders := update_first (\<lambda>x. oid x = orderId)
                  (\<lambda>_. ord\<lparr>products := resolved cat ps, shippingMethod := mth,
                        shippingFee := stored_fee,
                        totalAmount := apply_coupon cpn
                          (case added_fee fee of None \<Rightarrow> tot | Some f \<Rightarrow> js_add tot f),
                        order_coupon := cpn, createdAt := now\<rparr>) (orders u)\<rparr>)"
proof -
  from ok u obtain ord where ord: "orders_id u orderId = Some ord"
    by (cases "orders_id u orderId") (auto simp: put_order_def)
  from ok u ord obtain full tot where loop: "order_loop cat ps [] (Finite 0) = Inr (full, tot)"
    by (cases "order_loop cat ps [] (Finite 0)") (auto simp: put_order_def)
  from order_loop_resolved[OF loop] have full: "full = resolved cat ps" by simp
  from ok u ord loop obtain stored_fee where st: "cast_fee castNumber fee = Some stored_fee"
    by (cases "cast_fee castNumber fee") (auto simp: put_order_def Let_def)
  have t1: "(case fee of FeeNumber f \<Rightarrow> js_add tot f | _ \<Rightarrow> tot) =
      (case added_fee fee of None \<Rightarrow> tot | Some f \<Rightarrow> js_add tot f)"
    by (cases fee) simp_all
  from ok u ord loop full st
  have "d' = save d (u\<lparr>orders := update_first (\<lambda>x. oid x = orderId)
                  (\<lambda>_. ord\<lparr>products := resolved cat ps, shippingMethod := mth,
                        shippingFee := stored_fee,
                        totalAmount := apply_coupon cpn
                          (case added_fee fee of None \<Rightarrow> tot | Some f \<Rightarrow> js_add tot f),
                        order_coupon := cpn, createdAt := now\<rparr>) (orders u)\<rparr>)"
    unfolding t1[symmetric] by (auto simp: put_order_def Let_def split: if_splits)
  with ord loop full st show ?thesis by blast
qed

text \<open>
  A fee that \<open>PUT /order/:orderId\<close> is given as the string \<open>'60'\<close> is stored on the order
  as the number 60 and is not in the total: five of product A at 100 with the coupon of 20
  are stored with the total 480 and the shipping fee 60. And a total beyond \<open>2^53\<close> is
  rounded: \<open>2^50\<close> of product A at 100 with fee 60 and coupon 20 are stored by
  \<open>POST /order\<close> with a total that is 8 more than the formula gives.
\<close>

theorem order_total_counterexample:
  "put_order demo_castNumber demo_catalog 9 [demo_user [] [demo_order None] []] ''u1'' ''o1''
     [\<lparr>productId = ''A'', quantity = Finite 5\<rparr>] (Some ''store'') (FeeText ''60'')
     (Some \<lparr>code = ''c20'', discount = Finite 20\<rparr>) =
     ([demo_user []
         [\<lparr>oid = ''o1'', products = [demo_item ''A'' 5], shippingMethod = Some ''store'',
           createdAt = 9, totalAmount = Finite 480, shippingFee = Some (Finite 60),
           order_coupon = Some \<lparr>code = ''c20'', discount = Finite 20\<rparr>,
           order_review = None\<rparr>] []], Inr ())
   \<and> spec_totalAmount [demo_item ''A'' 5] (Some (Finite 60))
       (Some \<lparr>code = ''c20'', discount = Finite 20\<rparr>) = 540
   \<and> map totalAmount (orders (hd (fst
       (post_order demo_catalog ''o2'' 7 [demo_user [] [] []] ''u1''
          [\<lparr>productId = ''A'', quantity = Finite 1125899906842624\<rparr>]
          (Some ''123'') (Some ''123''))))) = [Finite 112589990684262448]
   \<and> spec_totalAmount [demo_item ''A'' 1125899906842624] (Some (Finite 60))
       (Some \<lparr>code = [CHR 0xE6, CHR 0x8A, CHR 0x98, CHR 0xE6, CHR 0x89, CHR 0xA3] @ ''20'',
              discount = Finite 20\<rparr>) = 112589990684262440"
proof -
  have r1: "rd 500 = Finite 500" "rd 480 = Finite 480"
    by (rule rd_exact, simp add: safe_def)+
  have r2: "rd 112589990684262400 = Finite 112589990684262400"
    "rd 112589990684262460 = Finite 112589990684262464"
    "rd 112589990684262444 = Finite 112589990684262448"
    by code_simp+
  show ?thesis
    by (simp add: r1 r2 post_order_def put_order_def demo_catalog_def demo_user_def
        demo_order_def demo_item_def demo_castNumber_def findById_def orders_id_def save_def
        js_get_def object_prototype_keys_def item_castable_def order_castable_def castable_def
        snapshot_def lookup_id_def fakeShippingFeeDatabase_def fakeCouponDatabase_def
        apply_coupon_def js_sub_def cast_fee_def spec_totalAmount_def line_total_def Let_def)
qed

text \<open>
  C3 (as amended). For an existing user, the order that a successful \<open>POST /order\<close>
  appends and the order that a successful \<open>PUT /order/:orderId\<close> rewrites both carry the
  line items resolved from the request's list. When the prices, the quantities, the fee and
  the discount are integers and the magnitudes of what the formula adds up stay below
  \<open>2^53\<close> together, their \<open>totalAmount\<close> is the total of the specification: the sum of
  price times quantity over those items, plus the shipping fee, minus the discount of the
  coupon of the order if it has one. The fee of the formula is the shipping fee of the
  order that \<open>POST /order\<close> appends, and the fee that \<open>PUT /order/:orderId\<close> is given as a
  number (no fee when the request gives none, or one that is not a number). The two handlers
  thus compute the same total from the same list, fee and coupon.
\<close>

theorem order_total_formula:
  assumes u: "findById d i = Some u"
  shows "(\<forall>d' k. post_order cat new_id now d i ps couponId shippingId = (d', Inr k) \<longrightarrow>
            (\<exists>ord. findById d' i = Some (u\<lparr>orders := orders u @ [ord]\<rparr>) \<and> oid ord = k
               \<and> products ord = resolved cat ps
               \<and> shippingFee ord =
                   map_option sd_ShippingFee
                     (own_value (lookup_id fakeShippingFeeDatabase shippingId))
               \<and> order_coupon ord = own_value (lookup_id fakeCouponDatabase couponId)
               \<and> (safe_total (products ord) (shippingFee ord) (order_coupon ord) \<longrightarrow>
                    totalAmount ord =
                      Finite (spec_totalAmount (products ord) (shippingFee ord)
                                (order_coupon ord)))))
       \<and> (\<forall>d'. put_order castNumber cat now d i orderId ps mth fee cpn = (d', Inr ()) \<longrightarrow>
            (\<exists>u' ord. findById d' i = Some u' \<and> orders_id u' orderId = Some ord
               \<and> products ord = resolved cat ps
               \<and> cast_fee castNumber fee = Some (shippingFee ord)
               \<and> order_coupon ord = cpn
               \<and> (safe_total (products ord) (added_fee fee) (order_coupon ord) \<longrightarrow>
                    totalAmount ord =
                      Finite (spec_totalAmount (products ord) (added_fee fee)
                                (order_coupon ord)))))"
proof (intro conjI allI impI)
  fix d' k
  assume ok: "post_order cat new_id now d i ps couponId shippingId = (d', Inr k)"
  let ?fee = "map_option sd_ShippingFee (own_value (lookup_id fakeShippingFeeDatabase shippingId))"
  let ?cpn = "own_value (lookup_id fakeCouponDatabase couponId)"
  from post_order_created[OF u ok] obtain tot f where
    loop: "order_loop cat ps [] (Finite 0) = Inr (resolved cat ps, tot)" and k: "k = new_id" and
    fee: "?fee = Some f" and
    d': "d' = save d (u\<lparr>orders := orders u @
                  [\<lparr>oid = new_id, products = resolved cat ps,
                    shippingMethod = map_option sd_shippingMethod
                      (own_value (lookup_id fakeShippingFeeDatabase shippingId)),
                    createdAt = now,
                    totalAmount = apply_coupon ?cpn (js_add tot (to_number ?fee)),
                    shippingFee = ?fee, order_coupon = ?cpn, order_review = None\<rparr>]\<rparr>)"
    by blast
  let ?o = "\<lparr>oid = new_id, products = resolved cat ps,
                    shippingMethod = map_option sd_shippingMethod
                      (own_value (lookup_id fakeShippingFeeDatabase shippingId)),
                    createdAt = now,
                    totalAmount = apply_coupon ?cpn (js_add tot (to_number ?fee)),
                    shippingFee = ?fee, order_coupon = ?cpn, order_review = None\<rparr>"
  have found: "findById d' i = Some (u\<lparr>orders := orders u @ [?o]\<rparr>)"
    unfolding d' using u findById_uid[OF u] by (intro findById_save) simp_all
  have tot: "totalAmount ?o = Finite (spec_totalAmount (resolved cat ps) ?fee ?cpn)"
    if safe: "safe_total (resolved cat ps) ?fee ?cpn"
  proof -
    from order_loop_safe[OF loop safe]
    have t: "tot = Finite (\<Sum>it\<leftarrow>resolved cat ps. line_total it)" by simp
    from total_exact[OF safe] show ?thesis unfolding fee t by simp
  qed
  show "\<exists>ord. findById d' i = Some (u\<lparr>orders := orders u @ [ord]\<rparr>) \<and> oid ord = k
               \<and> products ord = resolved cat ps
               \<and> shippingFee ord = ?fee
               \<and> order_coupon ord = ?cpn
               \<and> (safe_total (products ord) (shippingFee ord) (order_coupon ord) \<longrightarrow>
                    totalAmount ord =
                      Finite (spec_totalAmount (products ord) (shippingFee ord)
                                (order_coupon ord)))"
    using found k tot by (intro exI[of _ ?o]) simp
next
  fix d'
  assume ok: "put_order castNumber cat now d i orderId ps mth fee cpn = (d', Inr ())"
  from put_order_updated[OF u ok] obtain ord tot stored_fee where
    ord: "orders_id u orderId = Some ord" and
    loop: "order_loop cat ps [] (Finite 0) = Inr (resolved cat ps, tot)" and
    st: "cast_fee castNumber fee = Some stored_fee" and
    d': "d' = save d (u\<lparr>orders := update_first (\<lambda>x. oid x = orderId)
                  (\<lambda>_. ord\<lparr>products := resolved cat ps, shippingMethod := mth,
                        shippingFee := stored_fee,
                        totalAmount := apply_coupon cpn
                          (case added_fee fee of None \<Rightarrow> tot | Some f \<Rightarrow> js_add tot f),
                        order_coupon := cpn, createdAt := now\<rparr>) (orders u)\<rparr>)"
    by blast
  let ?o = "ord\<lparr>products := resolved cat ps, shippingMethod := mth,
                        shippingFee := stored_fee,
                        totalAmount := apply_coupon cpn
                          (case added_fee fee of None \<Rightarrow> tot | Some f \<Rightarrow> js_add tot f),
                        order_coupon := cpn, createdAt := now\<rparr>"
  let ?u' = "u\<lparr>orders := update_first (\<lambda>x. oid x = orderId) (\<lambda>_. ?o) (orders u)\<rparr>"
  have "findById (save d ?u') i = Some ?u' \<and> orders_id ?u' orderId = Some ?o"
    using u ord by (rule order_after_write) simp
  then have f: "findById d' i = Some ?u'" and g: "orders_id ?u' orderId = Some ?o"
    unfolding d' by simp_all
  have tot: "totalAmount ?o = Finite (spec_totalAmount (resolved cat ps) (added_fee fee) cpn)"
    if safe: "safe_total (resolved cat ps) (added_fee fee) cpn"
  proof -
    from order_loop_safe[OF loop safe]
    have t: "tot = Finite (\<Sum>it\<leftarrow>resolved cat ps. line_total it)" by simp
    from total_exact[OF safe] show ?thesis unfolding t by simp
  qed
  show "\<exists>u' ord. findById d' i = Some u' \<and> orders_id u' orderId = Some ord
               \<and> products ord = resolved cat ps
               \<and> cast_fee castNumber fee = Some (shippingFee ord)
               \<and> order_coupon ord = cpn
               \<and> (safe_total (products ord) (added_fee fee) (order_coupon ord) \<longrightarrow>
                    totalAmount ord =
                      Finite (spec_totalAmount (products ord) (added_fee fee)
                                (order_coupon ord)))"
    using f g st tot by (intro exI[of _ ?u'] exI[of _ ?o]) simp
qed

theorem order_total_formula_witness:
  "findById [demo_user [] [demo_order None] []] ''u1'' = Some (demo_user [] [demo_order None] [])
   \<and> snd (post_order demo_catalog ''o2'' 7 [demo_user [] [demo_order None] []] ''u1''
        [\<lparr>productId = ''A'', quantity = Finite 5\<rparr>] (Some ''123'') (Some ''123'')) = Inr ''o2''
   \<and> safe_total [demo_item ''A'' 5] (Some (Finite 60))
        (Some \<lparr>code = [CHR 0xE6, CHR 0x8A, CHR 0x98, CHR 0xE6, CHR 0x89, CHR 0xA3] @ ''20'',
               discount = Finite 20\<rparr>)
   \<and> map totalAmount (orders (hd (fst
        (post_order demo_catalog ''o2'' 7 [demo_user [] [demo_order None] []] ''u1''
          [\<lparr>productId = ''A'', quantity = Finite 5\<rparr>] (Some ''123'') (Some ''123''))))) =
      [Finite 540, Finite 540]
   \<and> snd (put_order demo_castNumber demo_catalog 9 [demo_user [] [demo_order None] []] ''u1''
        ''o1'' [\<lparr>productId = ''A'', quantity = Finite 5\<rparr>, \<lparr>productId = ''B'', quantity = Finite 2\<rparr>]
        None (FeeNumber (Finite 60)) (Some \<lparr>code = ''c20'', discount = Finite 20\<rparr>)) = Inr ()
   \<and> safe_total [demo_item ''A'' 5, demo_item ''B'' 2] (Some (Finite 60))
        (Some \<lparr>code = ''c20'', discount = Finite 20\<rparr>)
   \<and> map totalAmount (orders (hd (fst
        (put_order demo_castNumber demo_catalog 9 [demo_user [] [demo_order None] []] ''u1''
          ''o1'' [\<lparr>productId = ''A'', quantity = Finite 5\<rparr>, \<lparr>productId = ''B'', quantity = Finite 2\<rparr>]
          None (FeeNumber (Finite 60)) (Some \<lparr>code = ''c20'', discount = Finite 20\<rparr>))))) =
      [Finite 610]
   \<and> spec_totalAmount [demo_item ''A'' 5, demo_item ''B'' 2] (Some (Finite 60))
        (Some \<lparr>code = ''c20'', discount = Finite 20\<rparr>) = 610"
  using order_total_formula
    [where d = "[demo_user [] [demo_order None] []]" and i = "''u1''"
       and u = "demo_user [] [demo_order None] []" and cat = demo_catalog
       and new_id = "''o2''" and now = 7 and ps = "[\<lparr>productId = ''A'', quantity = Finite 5\<rparr>]"
       and couponId = "Some ''123''" and shippingId = "Some ''123''"]
    order_total_formula
    [where d = "[demo_user [] [demo_order None] []]" and i = "''u1''"
       and u = "demo_user [] [demo_order None] []" and cat = demo_catalog
       and castNumber = demo_castNumber and now = 9 and orderId = "''o1''"
       and ps = "[\<lparr>productId = ''A'', quantity = Finite 5\<rparr>,
                  \<lparr>productId = ''B'', quantity = Finite 2\<rparr>]"
       and mth = None and fee = "FeeNumber (Finite 60)"
       and cpn = "Some \<lparr>code = ''c20'', discount = Finite 20\<rparr>"]
  by (simp add: rd_exact safe_def demo_catalog_def demo_user_def demo_order_def demo_item_def
      findById_def orders_id_def save_def lookup_id_def js_get_def object_prototype_keys_def
      fakeShippingFeeDatabase_def fakeCouponDatabase_def post_order_def put_order_def
      apply_coupon_def js_sub_def cast_fee_def snapshot_def spec_totalAmount_def line_total_def
      safe_total_def finite_item_def item_castable_def order_castable_def castable_def Let_def)

section \<open>Coupon and shipping identifiers of a new order\<close>

text \<open>
  A shipping identifier whose lookup is \<open>undefined\<close> is answered \<open>InvalidShipping\<close>, and
  nothing is stored.
\<close>

lemma post_order_undefined_shipping:
  "lookup_id fakeShippingFeeDatabase shippingId = Undefined \<Longrightarrow>
   post_order cat new_id now d i ps couponId shippingId = (d, Inl (InvalidShipping shippingId))"
  by (simp add: post_order_def)

text \<open>
  A coupon identifier that finds no entry of \<open>fakeCouponDatabase\<close> changes nothing in the
  answer: the request is handled as the request without a coupon.
\<close>

lemma post_order_unresolved_coupon:
  "own_value (lookup_id fakeCouponDatabase couponId) = None \<Longrightarrow>
   post_order cat new_id now d i ps couponId shippingId =
     post_order cat new_id now d i ps None shippingId"
proof -
  assume c: "own_value (lookup_id fakeCouponDatabase couponId) = None"
  have n: "own_value (lookup_id fakeCouponDatabase None) = None"
    by (simp add: lookup_id_def js_get_def fakeCouponDatabase_def object_prototype_keys_def)
  show ?thesis unfolding post_order_def Let_def c n by (rule refl)
qed

lemma finite_item_castable: "finite_item it \<Longrightarrow> item_castable it"
  by (cases "price it")
     (auto simp: finite_item_def item_castable_def castable_def is_finite_iff)

text \<open>
  With a shipping identifier that finds an entry, products that the catalogue resolves and
  numbers within the bound, the order is created without a coupon and without a discount.
\<close>

lemma post_order_without_coupon:
  assumes u: "findById d i = Some u" and ne: "ps \<noteq> []"
      and sd: "lookup_id fakeShippingFeeDatabase shippingId = Own sd"
      and res: "List.find (\<lambda>p. js_get cat (productId p) = Undefined) ps = None"
      and cpn: "own_value (lookup_id fakeCouponDatabase couponId) = None"
      and safe: "safe_total (resolved cat ps) (Some (sd_ShippingFee sd)) None"
  shows "post_order cat new_id now d i ps couponId shippingId =
           (save d (u\<lparr>orders := orders u @
              [\<lparr>oid = new_id, products = resolved cat ps,
                shippingMethod = Some (sd_shippingMethod sd), createdAt = now,
                totalAmount = Finite ((\<Sum>it\<leftarrow>resolved cat ps. line_total it)
                                      + int_of (sd_ShippingFee sd)),
                shippingFee = Some (sd_ShippingFee sd), order_coupon = None,
                order_review = None\<rparr>]\<rparr>), Inr new_id)"
proof -
  from safe_total_items[OF safe]
  have fin: "list_all finite_item (resolved cat ps)"
    and b: "safe (\<bar>0\<bar> + (\<Sum>it\<leftarrow>resolved cat ps. \<bar>line_total it\<bar>))" by simp_all
  from res fin b
  have "order_loop cat ps [] (Finite 0) =
          Inr ([] @ resolved cat ps, Finite (0 + (\<Sum>it\<leftarrow>resolved cat ps. line_total it)))"
    by (rule order_loop_exact)
  then have loop: "order_loop cat ps [] (Finite 0) =
      Inr (resolved cat ps, Finite (\<Sum>it\<leftarrow>resolved cat ps. line_total it))"
    by simp
  from safe obtain f where f: "sd_ShippingFee sd = Finite f"
    by (auto simp: safe_total_def is_finite_iff)
  from total_exact[OF safe] f
  have tot: "js_add (Finite (\<Sum>it\<leftarrow>resolved cat ps. line_total it)) (Finite f) =
      Finite ((\<Sum>it\<leftarrow>resolved cat ps. line_total it) + f)"
    by (simp add: apply_coupon_def spec_totalAmount_def del: js_add.simps)
  from fin have items: "list_all item_castable (resolved cat ps)"
    by (auto simp: list_all_iff finite_item_castable)
  show ?thesis
    using u ne sd loop cpn items f
    by (simp add: post_order_def Let_def tot apply_coupon_def order_castable_def castable_def
        del: js_add.simps)
qed

text \<open>
  C6. \<open>fakeShippingFeeDatabase\<close> has no entry \<open>999\<close> and no entry \<open>constructor\<close>. The
  shipping identifier \<open>999\<close> is answered \<open>InvalidShipping\<close>. The lookup of
  \<open>constructor\<close> finds a member of \<open>Object.prototype\<close>, which the test \<open>!shippingData\<close>
  lets pass: the fee is \<open>undefined\<close>, the total \<open>NaN\<close>, and the request ends without the
  response \<open>InvalidShipping\<close>; no order is appended. A coupon identifier without an entry
  does not block the request: the order is created with no coupon and the total 560 of
  five of product A at 100 and the fee 60.
\<close>

theorem post_order_inherited_shipping:
  "fakeShippingFeeDatabase ''999'' = None \<and> fakeShippingFeeDatabase ''constructor'' = None
   \<and> post_order demo_catalog ''o2'' 7 [demo_user [] [] []] ''u1''
       [\<lparr>productId = ''A'', quantity = Finite 5\<rparr>] (Some ''123'') (Some ''999'') =
     ([demo_user [] [] []], Inl (InvalidShipping (Some ''999'')))
   \<and> post_order demo_catalog ''o2'' 7 [demo_user [] [] []] ''u1''
       [\<lparr>productId = ''A'', quantity = Finite 5\<rparr>] (Some ''123'') (Some ''constructor'') =
     ([demo_user [] [] []], Inl ServerError)
   \<and> post_order demo_catalog ''o2'' 7 [demo_user [] [] []] ''u1''
       [\<lparr>productId = ''A'', quantity = Finite 5\<rparr>] (Some ''nope'') (Some ''123'') =
     ([demo_user []
         [\<lparr>oid = ''o2'', products = [demo_item ''A'' 5],
           shippingMethod = Some [CHR 0xE8, CHR 0xB6, CHR 0x85, CHR 0xE5, CHR 0x95, CHR 0x86],
           createdAt = 7, totalAmount = Finite 560, shippingFee = Some (Finite 60),
           order_coupon = None, order_review = None\<rparr>] []], Inr ''o2'')"
proof -
  have r: "rd 500 = Finite 500" "rd 560 = Finite 560" "rd 540 = Finite 540"
    by (rule rd_exact, simp add: safe_def)+
  show ?thesis
    by (simp add: r post_order_def demo_catalog_def demo_user_def demo_item_def findById_def
        save_def js_get_def object_prototype_keys_def item_castable_def order_castable_def
        castable_def snapshot_def lookup_id_def fakeShippingFeeDatabase_def
        fakeCouponDatabase_def apply_coupon_def js_sub_def Let_def)
qed

section \<open>One review per order\<close>

lemma post_review_ok:
  assumes "findById d i = Some u" and "orders_id u orderId = Some ord"
      and "\<not> review_exists ord" and "\<not> rating_rejected toNumber (Some s)"
      and "validate_rating (parseInt s) = Some q"
  shows "post_review toNumber parseInt d i orderId cmt (Some s) files =
           (save d (u\<lparr>orders := update_first (\<lambda>x. oid x = orderId)
              (\<lambda>_. ord\<lparr>order_review :=
                     Some \<lparr>comment = (case cmt of None \<Rightarrow> [] | Some c \<Rightarrow> c), rating = Some q,
                           imageFiles = files\<rparr>\<rparr>) (orders u)\<rparr>), Inr ())"
  using assms by (simp add: post_review_def)

lemma post_review_exists:
  assumes "findById d i = Some u" and "orders_id u orderId = Some ord"
      and "review_exists ord" and "\<not> rating_rejected toNumber rtg"
  shows "post_review toNumber parseInt d i orderId cmt rtg files = (d, Inl ReviewExists)"
  using assms by (simp add: post_review_def)

lemma post_review_blocked:
  assumes "findById d i = Some u" and "orders_id u orderId = Some ord" and "review_exists ord"
  shows "isl (snd (post_review toNumber parseInt d i orderId cmt rtg files))
       \<and> fst (post_review toNumber parseInt d i orderId cmt rtg files) = d"
  using assms by (simp add: post_review_def)

lemma delete_review_ok:
  assumes "findById d i = Some u" and "orders_id u orderId = Some ord"
  shows "delete_review d i orderId =
           (save d (u\<lparr>orders := update_first (\<lambda>x. oid x = orderId)
              (\<lambda>_. ord\<lparr>order_review := None\<rparr>) (orders u)\<rparr>), Inr ())"
  using assms by (simp add: delete_review_def)

text \<open>
  C7. Let an order of the user carry a review that is not empty: its comment is not empty,
  or it has a rating (one the schema admits, from 1 to 5), or it has at least one image.
  Then every further \<open>POST /order/:orderId/review\<close> is answered with an error and leaves the
  collection, and so the review, as it was; the error is \<open>ReviewExists\<close> whenever the
  request's rating passes the rating check. \<open>DELETE /order/:orderId/review\<close> succeeds and
  clears the review, and after it the same attach request (whose parsed rating the schema
  admits) succeeds and stores its comment, rating and images on that order.
\<close>

theorem review_attach_once:
  assumes u: "findById d i = Some u" and ord: "orders_id u orderId = Some ord"
      and rv: "order_review ord = Some r"
      and nonempty: "comment r \<noteq> [] \<or> rating r \<noteq> None \<or> imageFiles r \<noteq> []"
      and schema: "\<forall>q. rating r = Some q \<longrightarrow> 1 \<le> q \<and> q \<le> 5"
      and valid: "\<not> rating_rejected toNumber (Some s)"
      and stored: "validate_rating (parseInt s) = Some q"
  shows "post_review toNumber parseInt d i orderId cmt (Some s) files = (d, Inl ReviewExists)
       \<and> isl (snd (post_review toNumber' parseInt' d i orderId cmt' rtg' files'))
       \<and> fst (post_review toNumber' parseInt' d i orderId cmt' rtg' files') = d
       \<and> snd (delete_review d i orderId) = Inr ()
       \<and> (\<exists>u1. findById (fst (delete_review d i orderId)) i = Some u1
             \<and> orders_id u1 orderId = Some (ord\<lparr>order_review := None\<rparr>))
       \<and> snd (post_review toNumber parseInt (fst (delete_review d i orderId)) i orderId cmt
             (Some s) files) = Inr ()
       \<and> (\<exists>u2. findById (fst (post_review toNumber parseInt (fst (delete_review d i orderId)) i
                    orderId cmt (Some s) files)) i = Some u2
             \<and> orders_id u2 orderId =
                 Some (ord\<lparr>order_review :=
                   Some \<lparr>comment = (case cmt of None \<Rightarrow> [] | Some c \<Rightarrow> c), rating = Some q,
                         imageFiles = files\<rparr>\<rparr>))"
proof -
  have ex: "review_exists ord"
    using rv nonempty schema by (auto simp: review_exists_def)
  have second: "post_review toNumber parseInt d i orderId cmt (Some s) files = (d, Inl ReviewExists)"
    using u ord ex valid by (rule post_review_exists)
  have blocked: "isl (snd (post_review toNumber' parseInt' d i orderId cmt' rtg' files'))
       \<and> fst (post_review toNumber' parseInt' d i orderId cmt' rtg' files') = d"
    using u ord ex by (rule post_review_blocked)
  let ?o1 = "ord\<lparr>order_review := None\<rparr>"
  let ?u1 = "u\<lparr>orders := update_first (\<lambda>x. oid x = orderId) (\<lambda>_. ?o1) (orders u)\<rparr>"
  have del: "delete_review d i orderId = (save d ?u1, Inr ())"
    using u ord by (rule delete_review_ok)
  have after_del: "findById (save d ?u1) i = Some ?u1 \<and> orders_id ?u1 orderId = Some ?o1"
    using u ord by (rule order_after_write) simp
  then have u1: "findById (save d ?u1) i = Some ?u1" and o1: "orders_id ?u1 orderId = Some ?o1"
    by simp_all
  have free: "\<not> review_exists ?o1" by (simp add: review_exists_def)
  let ?o2 = "?o1\<lparr>order_review :=
                   Some \<lparr>comment = (case cmt of None \<Rightarrow> [] | Some c \<Rightarrow> c), rating = Some q,
                         imageFiles = files\<rparr>\<rparr>"
  let ?u2 = "?u1\<lparr>orders := update_first (\<lambda>x. oid x = orderId) (\<lambda>_. ?o2) (orders ?u1)\<rparr>"
  have again: "post_review toNumber parseInt (save d ?u1) i orderId cmt (Some s) files =
      (save (save d ?u1) ?u2, Inr ())"
    using u1 o1 free valid stored by (rule post_review_ok)
  have after_add: "findById (save (save d ?u1) ?u2) i = Some ?u2 \<and> orders_id ?u2 orderId = Some ?o2"
    using u1 o1 by (rule order_after_write) simp
  have "\<exists>u2. findById (fst (post_review toNumber parseInt (fst (delete_review d i orderId)) i
                    orderId cmt (Some s) files)) i = Some u2
             \<and> orders_id u2 orderId =
                 Some (ord\<lparr>order_review :=
                   Some \<lparr>comment = (case cmt of None \<Rightarrow> [] | Some c \<Rightarrow> c), rating = Some q,
                         imageFiles = files\<rparr>\<rparr>)"
    using after_add del again by (intro exI[of _ ?u2]) simp
  moreover have "\<exists>u1. findById (fst (delete_review d i orderId)) i = Some u1
             \<and> orders_id u1 orderId = Some (ord\<lparr>order_review := None\<rparr>)"
    using after_del del by (intro exI[of _ ?u1]) simp
  ultimately show ?thesis using second blocked del again by simp
qed


theorem review_attach_once_witness:
  "post_review demo_Number demo_parseInt
     [demo_user [] [demo_order (Some \<lparr>comment = ''good'', rating = Some 5, imageFiles = []\<rparr>)] []]
     ''u1'' ''o1'' (Some ''again'') (Some ''3'') [''img''] =
     ([demo_user [] [demo_order (Some \<lparr>comment = ''good'', rating = Some 5, imageFiles = []\<rparr>)] []],
      Inl ReviewExists)
   \<and> delete_review
       [demo_user [] [demo_order (Some \<lparr>comment = ''good'', rating = Some 5, imageFiles = []\<rparr>)] []]
       ''u1'' ''o1'' = ([demo_user [] [demo_order None] []], Inr ())
   \<and> post_review demo_Number demo_parseInt [demo_user [] [demo_order None] []]
       ''u1'' ''o1'' (Some ''again'') (Some ''3'') [''img''] =
     ([demo_user [] [demo_order (Some \<lparr>comment = ''again'', rating = Some 3,
         imageFiles = [''img'']\<rparr>)] []], Inr ())"
  using review_attach_once
    [where d = "[demo_user [] [demo_order (Some \<lparr>comment = ''good'', rating = Some 5,
                  imageFiles = []\<rparr>)] []]"
       and i = "''u1''" and orderId = "''o1''"
       and u = "demo_user [] [demo_order (Some \<lparr>comment = ''good'', rating = Some 5,
                  imageFiles = []\<rparr>)] []"
       and ord = "demo_order (Some \<lparr>comment = ''good'', rating = Some 5, imageFiles = []\<rparr>)"
       and r = "\<lparr>comment = ''good'', rating = Some 5, imageFiles = []\<rparr>"
       and toNumber = demo_Number and parseInt = demo_parseInt and s = "''3''" and q = 3
       and cmt = "Some ''again''" and files = "[''img'']"]
  by (simp add: demo_user_def demo_order_def demo_Number_def demo_parseInt_def findById_def
      orders_id_def save_def rating_rejected_def review_exists_def post_review_def
      delete_review_def)

section \<open>The rating of a review\<close>

lemma post_review_invalid_iff:
  "post_review toNumber parseInt d i orderId cmt rtg files = (d, Inl InvalidRating) \<longleftrightarrow>
   rating_rejected toNumber rtg"
  by (auto simp: post_review_def Let_def split: option.splits)

text \<open>
  The check rejects a rating unless the text is not empty and \<open>Number\<close> reads it as a
  number from 1 to 5.
\<close>

lemma rating_rejected_iff:
  "rating_rejected toNumber rtg \<longleftrightarrow>
   \<not> (\<exists>s q. rtg = Some s \<and> s \<noteq> [] \<and> toNumber s = Fin q \<and> 1 \<le> q \<and> q \<le> 5)"
proof (cases rtg)
  case None
  then show ?thesis by (simp add: rating_rejected_def)
next
  case (Some s)
  then show ?thesis by (cases "toNumber s") (auto simp: rating_rejected_def)
qed

lemma validate_rating_Some:
  "validate_rating x = Some q \<longleftrightarrow> x = Fin q \<and> 1 \<le> q \<and> q \<le> 5"
  by (cases x) auto

text \<open>
  The rating \<open>4.7\<close> is a number from 1 to 5, so the check lets it pass; \<open>parseInt\<close> stores
  it as 4.
\<close>

theorem review_rating_fraction_counterexample:
  "post_review demo_Number demo_parseInt [demo_user [] [demo_order None] []] ''u1'' ''o1''
     (Some ''fine'') (Some ''4.7'') [] =
     ([demo_user [] [demo_order (Some \<lparr>comment = ''fine'', rating = Some 4, imageFiles = []\<rparr>)] []],
      Inr ())"
  by (simp add: demo_user_def demo_order_def demo_Number_def demo_parseInt_def findById_def
      orders_id_def save_def rating_rejected_def review_exists_def post_review_def)

text \<open>
  C8 (as amended). \<open>POST /order/:orderId/review\<close> answers \<open>InvalidRating\<close> exactly when
  the rating is missing, empty, not a number, below 1 or above 5, that is, unless the text
  is not empty and \<open>Number\<close> reads it as a number from 1 to 5; and then it stores nothing. A
  number from 1 to 5 that is not an integer is not rejected. Whenever the request succeeds,
  the rating of the stored review is the integer that \<open>parseInt\<close> reads, and it is from 1
  to 5. When \<open>Number\<close> and \<open>parseInt\<close> both read the text as the same integer from 1 to 5
  (as they do the numerals \<open>1\<close> to \<open>5\<close>), the user and the order exist and the order has no
  review yet, the request succeeds and the stored review carries that integer as its
  rating. A text that \<open>Number\<close> reads as an integer from 1 to 5 and \<open>parseInt\<close> reads
  otherwise (such as \<open>0.5e1\<close>) is left out of this statement.
\<close>

theorem review_rating_check:
  "(post_review toNumber parseInt d i orderId cmt rtg files = (d, Inl InvalidRating) \<longleftrightarrow>
      \<not> (\<exists>s q. rtg = Some s \<and> s \<noteq> [] \<and> toNumber s = Fin q \<and> 1 \<le> q \<and> q \<le> 5))
   \<and> (post_review toNumber parseInt d i orderId cmt rtg files = (d, Inl InvalidRating) \<longleftrightarrow>
        rtg = None \<or> rtg = Some []
        \<or> (\<exists>s. rtg = Some s \<and>
              (toNumber s = NaN \<or> js_lt (toNumber s) 1 \<or> js_gt (toNumber s) 5)))
   \<and> (snd (post_review toNumber parseInt d i orderId cmt rtg files) = Inl InvalidRating \<longrightarrow>
        fst (post_review toNumber parseInt d i orderId cmt rtg files) = d)
   \<and> (\<forall>u. findById d i = Some u \<and>
          snd (post_review toNumber parseInt d i orderId cmt rtg files) = Inr () \<longrightarrow>
        (\<exists>s n ord u'. rtg = Some s \<and> parseInt s = Fin n \<and> 1 \<le> n \<and> n \<le> 5
           \<and> orders_id u orderId = Some ord
           \<and> findById (fst (post_review toNumber parseInt d i orderId cmt rtg files)) i = Some u'
           \<and> orders_id u' orderId =
               Some (ord\<lparr>order_review :=
                 Some \<lparr>comment = (case cmt of None \<Rightarrow> [] | Some c \<Rightarrow> c),
                       rating = Some n, imageFiles = files\<rparr>\<rparr>)))
   \<and> (\<forall>s n u ord. rtg = Some s \<and> s \<noteq> [] \<and> toNumber s = Fin (of_int n)
          \<and> parseInt s = Fin (of_int n) \<and> 1 \<le> n \<and> n \<le> 5
          \<and> findById d i = Some u \<and> orders_id u orderId = Some ord \<and> \<not> review_exists ord \<longrightarrow>
        snd (post_review toNumber parseInt d i orderId cmt rtg files) = Inr ()
        \<and> (\<exists>u'. findById (fst (post_review toNumber parseInt d i orderId cmt rtg files)) i =
                   Some u'
              \<and> orders_id u' orderId =
                  Some (ord\<lparr>order_review :=
                    Some \<lparr>comment = (case cmt of None \<Rightarrow> [] | Some c \<Rightarrow> c),
                          rating = Some (of_int n), imageFiles = files\<rparr>\<rparr>)))"
proof (intro conjI allI impI)
  show "post_review toNumber parseInt d i orderId cmt rtg files = (d, Inl InvalidRating) \<longleftrightarrow>
      \<not> (\<exists>s q. rtg = Some s \<and> s \<noteq> [] \<and> toNumber s = Fin q \<and> 1 \<le> q \<and> q \<le> 5)"
    unfolding post_review_invalid_iff by (rule rating_rejected_iff)
next
  show "post_review toNumber parseInt d i orderId cmt rtg files = (d, Inl InvalidRating) \<longleftrightarrow>
      rtg = None \<or> rtg = Some []
      \<or> (\<exists>s. rtg = Some s \<and>
            (toNumber s = NaN \<or> js_lt (toNumber s) 1 \<or> js_gt (toNumber s) 5))"
    unfolding post_review_invalid_iff by (cases rtg) (auto simp: rating_rejected_def)
next
  assume "snd (post_review toNumber parseInt d i orderId cmt rtg files) = Inl InvalidRating"
  then show "fst (post_review toNumber parseInt d i orderId cmt rtg files) = d"
    by (auto simp: post_review_def Let_def split: option.splits if_splits)
next
  fix u
  assume h: "findById d i = Some u \<and>
          snd (post_review toNumber parseInt d i orderId cmt rtg files) = Inr ()"
  then have u: "findById d i = Some u"
    and ok: "snd (post_review toNumber parseInt d i orderId cmt rtg files) = Inr ()"
    by simp_all
  from ok have acc: "\<not> rating_rejected toNumber rtg"
    by (auto simp: post_review_def split: if_splits)
  then obtain s where rtg: "rtg = Some s" by (cases rtg) (auto simp: rating_rejected_def)
  from ok u acc obtain ord where ord: "orders_id u orderId = Some ord"
    by (cases "orders_id u orderId") (auto simp: post_review_def)
  from ok u acc ord have free: "\<not> review_exists ord"
    by (auto simp: post_review_def split: if_splits)
  from ok u acc ord free rtg obtain n where val: "validate_rating (parseInt s) = Some n"
    by (cases "validate_rating (parseInt s)") (auto simp: post_review_def)
  then have n: "parseInt s = Fin n" "1 \<le> n" "n \<le> 5" by (simp_all add: validate_rating_Some)
  let ?o = "ord\<lparr>order_review :=
                    Some \<lparr>comment = (case cmt of None \<Rightarrow> [] | Some c \<Rightarrow> c),
                          rating = Some n, imageFiles = files\<rparr>\<rparr>"
  let ?u = "u\<lparr>orders := update_first (\<lambda>x. oid x = orderId) (\<lambda>_. ?o) (orders u)\<rparr>"
  from acc rtg have acc': "\<not> rating_rejected toNumber (Some s)" by simp
  have res: "post_review toNumber parseInt d i orderId cmt rtg files = (save d ?u, Inr ())"
    unfolding rtg using u ord free acc' val by (rule post_review_ok)
  have "findById (save d ?u) i = Some ?u \<and> orders_id ?u orderId = Some ?o"
    using u ord by (rule order_after_write) simp
  with res rtg n ord
  show "\<exists>s n ord u'. rtg = Some s \<and> parseInt s = Fin n \<and> 1 \<le> n \<and> n \<le> 5
           \<and> orders_id u orderId = Some ord
           \<and> findById (fst (post_review toNumber parseInt d i orderId cmt rtg files)) i = Some u'
           \<and> orders_id u' orderId =
               Some (ord\<lparr>order_review :=
                 Some \<lparr>comment = (case cmt of None \<Rightarrow> [] | Some c \<Rightarrow> c),
                       rating = Some n, imageFiles = files\<rparr>\<rparr>)"
    by (intro exI[of _ s] exI[of _ n] exI[of _ ord] exI[of _ ?u]) simp
next
  fix s n u ord
  assume h: "rtg = Some s \<and> s \<noteq> [] \<and> toNumber s = Fin (of_int n)
          \<and> parseInt s = Fin (of_int n) \<and> 1 \<le> n \<and> n \<le> 5
          \<and> findById d i = Some u \<and> orders_id u orderId = Some ord \<and> \<not> review_exists ord"
  let ?o = "ord\<lparr>order_review :=
                    Some \<lparr>comment = (case cmt of None \<Rightarrow> [] | Some c \<Rightarrow> c),
                          rating = Some (of_int n), imageFiles = files\<rparr>\<rparr>"
  let ?u = "u\<lparr>orders := update_first (\<lambda>x. oid x = orderId) (\<lambda>_. ?o) (orders u)\<rparr>"
  from h have acc: "\<not> rating_rejected toNumber (Some s)"
    by (simp add: rating_rejected_def)
  from h have val: "validate_rating (parseInt s) = Some (of_int n)" by simp
  from h have u: "findById d i = Some u" and ord: "orders_id u orderId = Some ord"
    and free: "\<not> review_exists ord" and rtg: "rtg = Some s" by simp_all
  have res: "post_review toNumber parseInt d i orderId cmt rtg files = (save d ?u, Inr ())"
    unfolding rtg using u ord free acc val by (rule post_review_ok)
  then show "snd (post_review toNumber parseInt d i orderId cmt rtg files) = Inr ()" by simp
  have "findById (save d ?u) i = Some ?u \<and> orders_id ?u orderId = Some ?o"
    using u ord by (rule order_after_write) simp
  with res show "\<exists>u'. findById (fst (post_review toNumber parseInt d i orderId cmt rtg files)) i =
                   Some u'
              \<and> orders_id u' orderId = Some ?o"
    by (intro exI[of _ ?u]) simp
qed

theorem review_rating_check_witness:
  "post_review demo_Number demo_parseInt [demo_user [] [demo_order None] []] ''u1'' ''o1''
     (Some ''fine'') (Some ''9'') [] = ([demo_user [] [demo_order None] []], Inl InvalidRating)
   \<and> post_review demo_Number demo_parseInt [demo_user [] [demo_order None] []] ''u1'' ''o1''
       (Some ''fine'') (Some ''0'') [] = ([demo_user [] [demo_order None] []], Inl InvalidRating)
   \<and> post_review demo_Number demo_parseInt [demo_user [] [demo_order None] []] ''u1'' ''o1''
       (Some ''fine'') (Some ''abc'') [] = ([demo_user [] [demo_order None] []], Inl InvalidRating)
   \<and> post_review demo_Number demo_parseInt [demo_user [] [demo_order None] []] ''u1'' ''o1''
       (Some ''fine'') None [] = ([demo_user [] [demo_order None] []], Inl InvalidRating)
   \<and> post_review demo_Number demo_parseInt [demo_user [] [demo_order None] []] ''u1'' ''o1''
       (Some ''fine'') (Some ''3'') [] =
     ([demo_user [] [demo_order (Some \<lparr>comment = ''fine'', rating = Some 3, imageFiles = []\<rparr>)] []],
      Inr ())"
  using review_rating_check
    [where toNumber = demo_Number and parseInt = demo_parseInt
       and d = "[demo_user [] [demo_order None] []]" and i = "''u1''" and orderId = "''o1''"
       and cmt = "Some ''fine''" and rtg = "Some ''9''" and files = "[]"]
    review_rating_check
    [where toNumber = demo_Number and parseInt = demo_parseInt
       and d = "[demo_user [] [demo_order None] []]" and i = "''u1''" and orderId = "''o1''"
       and cmt = "Some ''fine''" and rtg = "Some ''0''" and files = "[]"]
    review_rating_check
    [where toNumber = demo_Number and parseInt = demo_parseInt
       and d = "[demo_user [] [demo_order None] []]" and i = "''u1''" and orderId = "''o1''"
       and cmt = "Some ''fine''" and rtg = "Some ''abc''" and files = "[]"]
    review_rating_check
    [where toNumber = demo_Number and parseInt = demo_parseInt
       and d = "[demo_user [] [demo_order None] []]" and i = "''u1''" and orderId = "''o1''"
       and cmt = "Some ''fine''" and rtg = "None" and files = "[]"]
    review_rating_check
    [where toNumber = demo_Number and parseInt = demo_parseInt
       and d = "[demo_user [] [demo_order None] []]" and i = "''u1''" and orderId = "''o1''"
       and cmt = "Some ''fine''" and rtg = "Some ''3''" and files = "[]"]
  by (simp add: demo_user_def demo_order_def demo_Number_def demo_parseInt_def findById_def
      orders_id_def save_def rating_rejected_def review_exists_def post_review_def)

section \<open>The cart invariant\<close>

text \<open>
  What the three cart routes keep of the invariant. Removing items and setting a quantity
  keep it; adding keeps the product identifiers distinct, and keeps the quantities at 1 or
  more when every quantity of the request is 1 or more: a sum of two numbers that are at
  least 1 is at least 1, also when it is rounded.
\<close>

lemma shift53_div: "1 \<le> a \<Longrightarrow> 1 \<le> a div 2 ^ shift53 a"
proof (induction a rule: shift53.induct)
  case (1 a)
  show ?case
  proof (cases "a < 2 ^ 53")
    case True
    then have "shift53 a = 0" by (rule shift53_small)
    with 1 show ?thesis by simp
  next
    case False
    then have s: "shift53 a = Suc (shift53 (a div 2))" by (subst shift53.simps) simp
    from False have "1 \<le> a div 2" by simp
    with 1 False have "1 \<le> a div 2 div 2 ^ shift53 (a div 2)" by simp
    moreover have "a div 2 ^ Suc (shift53 (a div 2)) = a div 2 div 2 ^ shift53 (a div 2)"
      by (simp add: zdiv_zmult2_eq)
    ultimately show ?thesis unfolding s by simp
  qed
qed

lemma rd_at_least_1:
  assumes "1 \<le> x"
  shows "castable (rd x) \<and> \<not> js_less (rd x) 1"
proof -
  define e where "e = shift53 x"
  define q where "q = x div 2 ^ e"
  define m where "m = (if 2 * (x mod 2 ^ e) > 2 ^ e \<or> (2 * (x mod 2 ^ e) = 2 ^ e \<and> odd q)
                       then q + 1 else q)"
  from assms have ax: "\<bar>x\<bar> = x" and nx: "\<not> x < 0" by simp_all
  have rd: "rd x = (if m * 2 ^ e \<ge> 2 ^ 1024 then PlusInfinity else Finite (m * 2 ^ e))"
    unfolding rd_def Let_def ax m_def q_def e_def by (simp only: nx if_False)
  from assms have "1 \<le> q" unfolding q_def e_def by (rule shift53_div)
  then have "1 \<le> m" by (simp add: m_def)
  moreover have "(1::int) \<le> 2 ^ e" by simp
  ultimately have "1 * 1 \<le> m * 2 ^ e" by (intro mult_mono) simp_all
  then have v: "\<not> m * 2 ^ e < 1" by simp
  show ?thesis
  proof (cases "m * 2 ^ e \<ge> 2 ^ 1024")
    case True
    then have "rd x = PlusInfinity" unfolding rd by (simp only: if_True)
    then show ?thesis by (simp add: castable_def)
  next
    case False
    then have "rd x = Finite (m * 2 ^ e)" unfolding rd by (simp only: if_False)
    with v show ?thesis by (simp add: castable_def)
  qed
qed

lemma js_add_at_least_1:
  assumes x: "castable x \<and> \<not> js_less x 1" and y: "castable y \<and> \<not> js_less y 1"
  shows "castable (js_add x y) \<and> \<not> js_less (js_add x y) 1"
proof (cases x)
  case NotANumber
  with x show ?thesis by (simp add: castable_def)
next
  case MinusInfinity
  with x show ?thesis by simp
next
  case fx: (Finite a)
  show ?thesis
  proof (cases y)
    case NotANumber
    with y show ?thesis by (simp add: castable_def)
  next
    case MinusInfinity
    with y show ?thesis by simp
  next
    case (Finite b)
    with x y fx have "1 \<le> a + b" by simp
    then have "castable (rd (a + b)) \<and> \<not> js_less (rd (a + b)) 1" by (rule rd_at_least_1)
    with Finite fx show ?thesis by simp
  next
    case PlusInfinity
    with fx show ?thesis by (simp add: castable_def)
  qed
next
  case PlusInfinity
  with y show ?thesis by (cases y) (simp_all add: castable_def)
qed

lemma map_productId_update_first:
  "map productId (update_first P (\<lambda>e. e\<lparr>quantity := g e\<rparr>) c) = map productId c"
  by (induction c) auto

lemma set_update_first:
  "set (update_first P f xs) \<subseteq> set xs \<union> f ` {x \<in> set xs. P x}"
  by (induction xs) auto

lemma cart_inv_update_first:
  assumes "cart_inv c"
      and "\<And>e. e \<in> set c \<Longrightarrow> castable (g e) \<and> \<not> js_less (g e) 1"
  shows "cart_inv (update_first P (\<lambda>e. e\<lparr>quantity := g e\<rparr>) c)"
proof -
  have "\<forall>it \<in> set (update_first P (\<lambda>e. e\<lparr>quantity := g e\<rparr>) c).
          castable (quantity it) \<and> \<not> js_less (quantity it) 1"
    using assms set_update_first[of P "\<lambda>e. e\<lparr>quantity := g e\<rparr>" c]
    by (auto simp: cart_inv_def list_all_iff)
  with assms(1) show ?thesis
    by (simp add: cart_inv_def list_all_iff map_productId_update_first)
qed

lemma cart_inv_append_new:
  assumes "cart_inv c" and "List.find (\<lambda>it. productId it = productId p) c = None"
      and "castable (quantity p) \<and> \<not> js_less (quantity p) 1"
  shows "cart_inv (c @ [snapshot info p])"
proof -
  from assms(2) have "productId p \<notin> productId ` set c"
    by (auto simp: find_None_iff)
  with assms(1,3) show ?thesis by (simp add: cart_inv_def snapshot_simps)
qed

lemma cart_loop_inv:
  "cart_inv c \<Longrightarrow> list_all (\<lambda>p. castable (quantity p) \<and> \<not> js_less (quantity p) 1) ps \<Longrightarrow>
   cart_loop cat ps c = Inr c' \<Longrightarrow> cart_inv c'"
proof (induction ps arbitrary: c)
  case Nil
  then show ?case by simp
next
  case (Cons p ps)
  from Cons.prems(3) have res: "js_get cat (productId p) \<noteq> Undefined"
    by (cases "js_get cat (productId p)") auto
  from Cons.prems(2) have qp: "castable (quantity p) \<and> \<not> js_less (quantity p) 1"
    and rest: "list_all (\<lambda>p. castable (quantity p) \<and> \<not> js_less (quantity p) 1) ps"
    by simp_all
  show ?case
  proof (cases "List.find (\<lambda>item. productId item = productId p) c")
    case None
    with Cons.prems(3) res
    have "cart_loop cat ps (c @ [snapshot (js_get cat (productId p)) p]) = Inr c'"
      by (simp add: cart_loop_step del: cart_loop.simps)
    moreover have "cart_inv (c @ [snapshot (js_get cat (productId p)) p])"
      using Cons.prems(1) None qp by (rule cart_inv_append_new)
    ultimately show ?thesis using rest Cons.IH by blast
  next
    case (Some e)
    let ?c = "update_first (\<lambda>item. productId item = productId p)
               (\<lambda>e. e\<lparr>quantity := js_add (quantity e) (quantity p)\<rparr>) c"
    from Cons.prems(3) res Some have "cart_loop cat ps ?c = Inr c'"
      by (simp add: cart_loop_step del: cart_loop.simps)
    moreover have "cart_inv ?c"
    proof (rule cart_inv_update_first[OF Cons.prems(1)])
      fix e assume "e \<in> set c"
      with Cons.prems(1) have "castable (quantity e) \<and> \<not> js_less (quantity e) 1"
        by (simp add: cart_inv_def list_all_iff)
      then show "castable (js_add (quantity e) (quantity p))
                 \<and> \<not> js_less (js_add (quantity e) (quantity p)) 1"
        using qp by (rule js_add_at_least_1)
    qed
    ultimately show ?thesis using rest Cons.IH by blast
  qed
qed

lemma cart_inv_filter: "cart_inv c \<Longrightarrow> cart_inv (filter P c)"
  by (auto simp: cart_inv_def distinct_map_filter list_all_iff)

lemma post_cart_inv:
  assumes "findById d i = Some u" and "cart_inv (cart u)"
      and "list_all (\<lambda>p. castable (quantity p) \<and> \<not> js_less (quantity p) 1) ps"
      and "post_cart cat d i ps = (d', Inr c')"
  shows "findById d' i = Some (u\<lparr>cart := c'\<rparr>) \<and> cart_inv c'"
proof -
  from assms(1,4) have loop: "cart_loop cat ps (cart u) = Inr c'" and d': "d' = save d (u\<lparr>cart := c'\<rparr>)"
    by (auto simp: post_cart_def split: if_splits sum.splits)
  have "findById (save d (u\<lparr>cart := c'\<rparr>)) i = Some (u\<lparr>cart := c'\<rparr>)"
    using assms(1) findById_uid[OF assms(1)] by (intro findById_save) simp_all
  moreover have "cart_inv c'" using assms(2,3) loop by (rule cart_loop_inv)
  ultimately show ?thesis using d' by simp
qed

lemma delete_cart_inv:
  assumes "findById d i = Some u" and "cart_inv (cart u)"
      and "delete_cart d i productIds = (d', Inr n)"
  shows "\<exists>u'. findById d' i = Some u' \<and> cart_inv (cart u')"
proof -
  let ?c = "filter (\<lambda>p. productId p \<notin> set productIds) (cart u)"
  from assms(1,3) have d': "d' = save d (u\<lparr>cart := ?c\<rparr>)"
    by (auto simp: delete_cart_def Let_def split: if_splits)
  have "findById (save d (u\<lparr>cart := ?c\<rparr>)) i = Some (u\<lparr>cart := ?c\<rparr>)"
    using assms(1) findById_uid[OF assms(1)] by (intro findById_save) simp_all
  moreover have "cart_inv ?c" using assms(2) by (rule cart_inv_filter)
  ultimately show ?thesis using d' by auto
qed

lemma put_cart_inv:
  assumes "findById d i = Some u" and "cart_inv (cart u)"
      and "put_cart d i pid qty = (d', Inr ())"
  shows "\<exists>u'. findById d' i = Some u' \<and> cart_inv (cart u')"
proof -
  from assms(3) obtain q where q: "qty = Some q" "\<not> js_less q 1"
    by (cases qty) (auto simp: put_cart_def split: if_splits)
  from assms(1,3) q have c: "castable q"
    by (auto simp: put_cart_def split: if_splits option.splits)
  let ?c = "update_first (\<lambda>p. productId p = pid) (\<lambda>it. it\<lparr>quantity := q\<rparr>) (cart u)"
  from assms(1,3) q have d': "d' = save d (u\<lparr>cart := ?c\<rparr>)"
    by (auto simp: put_cart_def split: if_splits option.splits)
  have "findById (save d (u\<lparr>cart := ?c\<rparr>)) i = Some (u\<lparr>cart := ?c\<rparr>)"
    using assms(1) findById_uid[OF assms(1)] by (intro findById_save) simp_all
  moreover have "cart_inv ?c" using assms(2) q(2) c by (intro cart_inv_update_first) simp_all
  ultimately show ?thesis using d' by auto
qed

text \<open>
  C9. \<open>POST /cart\<close> does not check the quantities of a request (\<open>PUT /cart/:productId\<close>
  answers \<open>InvalidQuantity\<close> below 1). On an empty cart, an entry with quantity 0 is appended
  and saved with quantity 0; on a cart holding two of a product, an entry with quantity -5
  leaves the item with quantity -3. Both requests succeed, and the saved carts break the
  bound on the quantity; the same quantity 0 sent to \<open>PUT /cart/:productId\<close> is refused.
\<close>

theorem post_cart_quantity_unchecked:
  "post_cart demo_catalog [demo_user [] [] []] ''u1''
     [\<lparr>productId = ''A'', quantity = Finite 0\<rparr>] =
     ([demo_user [demo_item ''A'' 0] [] []], Inr [demo_item ''A'' 0])
   \<and> quantity (demo_item ''A'' 0) = Finite 0
   \<and> post_cart demo_catalog [demo_user [demo_item ''A'' 2] [] []] ''u1''
       [\<lparr>productId = ''A'', quantity = Finite (- 5)\<rparr>] =
     ([demo_user [demo_item ''A'' (- 3)] [] []], Inr [demo_item ''A'' (- 3)])
   \<and> put_cart [demo_user [demo_item ''A'' 2] [] []] ''u1'' ''A'' (Some (Finite 0)) =
     ([demo_user [demo_item ''A'' 2] [] []], Inl InvalidQuantity)
   \<and> cart_inv [] \<and> cart_inv [demo_item ''A'' 2]
   \<and> \<not> cart_inv [demo_item ''A'' 0] \<and> \<not> cart_inv [demo_item ''A'' (- 3)]"
proof -
  have "rd (- 3) = Finite (- 3)" by (rule rd_exact) (simp add: safe_def)
  then show ?thesis
    by (simp add: post_cart_def put_cart_def demo_catalog_def demo_user_def demo_item_def
        findById_def save_def snapshot_def js_get_def item_castable_def castable_def
        cart_inv_def)
qed


end
